theory Spec2Isabelle
  imports Complex_Main
begin

section \<open>Python values and built-ins used by the corpus reader\<close>

text \<open>
  Exceptions of the Python source are values: every function that can raise returns
  \<open>error + 'a\<close>, with \<open>Inl\<close> for the exception.
\<close>

datatype error = IndexError | ValueError | KeyError | InvalidArgumentError

text \<open>
  The module \<open>constants\<close> is imported by the corpus reader; its values are taken as a
  parameter. The column numbers index the tab-separated fields of a row, the two limits
  bound the word count and the wordpiece count of a sentence.
\<close>

record constants =
  CONLLU_ID :: nat
  CONLLU_ORTH :: nat
  CONLLU_LEMMA :: nat
  CONLLU_POS :: nat
  CONLLU_HEAD :: nat
  MAX_TOKENS :: nat
  MAX_WORDPIECES :: nat

text \<open>
  The tokenizer is the object handed to the constructor; only its two methods
  \<open>tokenize\<close> (with \<open>add_special_tokens=False\<close>) and \<open>convert_tokens_to_ids\<close> are called.
\<close>

record tokenizer =
  tokenize :: "string \<Rightarrow> string list"
  convert_tokens_to_ids :: "string list \<Rightarrow> int list"

text \<open>
  Strings are lists of 8-bit characters. Characters that \<open>str.strip()\<close> removes are the
  ASCII white space of Python, the digits of \<open>str.isdigit()\<close> the ASCII digits; white
  space and digits of Unicode beyond ASCII are not modelled.
\<close>

definition is_space :: "char \<Rightarrow> bool" where
  "is_space c = ((of_char c :: nat) \<in> {9, 10, 11, 12, 13, 28, 29, 30, 31, 32})"

definition strip :: "string \<Rightarrow> string" where
  "strip s = rev (dropWhile is_space (rev (dropWhile is_space s)))"

text \<open>\<open>s.split(c)\<close> with an explicit separator: empty fields are kept.\<close>

fun split :: "char \<Rightarrow> string \<Rightarrow> string list" where
  "split c [] = [[]]"
| "split c (x # xs) =
     (if x = c then [] # split c xs
      else (case split c xs of [] \<Rightarrow> [[x]] | w # ws \<Rightarrow> (x # w) # ws))"

definition is_digit :: "char \<Rightarrow> bool" where
  "is_digit c = (48 \<le> (of_char c :: nat) \<and> (of_char c :: nat) \<le> 57)"

definition isdigit :: "string \<Rightarrow> bool" where
  "isdigit s = (s \<noteq> [] \<and> list_all is_digit s)"

definition digit_val :: "char \<Rightarrow> int" where
  "digit_val c = int (of_char c) - 48"

definition digits_val :: "string \<Rightarrow> int" where
  "digits_val s = foldl (\<lambda>a c. 10 * a + digit_val c) 0 s"

text \<open>
  The digits of an integer literal: decimal digits, with single underscores allowed
  between two digits.
\<close>

fun digit_groups :: "string \<Rightarrow> bool" where
  "digit_groups [] = False"
| "digit_groups [c] = is_digit c"
| "digit_groups (c # d # s) =
     (is_digit c \<and> (if d = CHR ''_'' then digit_groups s else digit_groups (d # s)))"

text \<open>
  \<open>int(s)\<close> for a string: surrounding white space, an optional sign, digits. The white
  space \<open>int\<close> skips around an ASCII string is the tab, the line feed, the vertical tab,
  the form feed, the carriage return and the space; it does not skip the separators
  \<open>0x1C\<close> to \<open>0x1F\<close> that \<open>str.strip()\<close> removes.
\<close>

definition is_int_space :: "char \<Rightarrow> bool" where
  "is_int_space c = ((of_char c :: nat) \<in> {9, 10, 11, 12, 13, 32})"

definition py_int :: "string \<Rightarrow> error + int" where
  "py_int s =
     (let t = rev (dropWhile is_int_space (rev (dropWhile is_int_space s)));
          (sgn, body) = (case t of
             [] \<Rightarrow> (1, [])
           | c # r \<Rightarrow> if c = CHR ''-'' then (- 1, r)
                      else if c = CHR ''+'' then (1, r) else (1, t))
      in if digit_groups body
         then Inr (sgn * digits_val (filter (\<lambda>c. c \<noteq> CHR ''_'') body))
         else Inl ValueError)"

definition startswith_hash :: "string \<Rightarrow> bool" where
  "startswith_hash line = (case line of [] \<Rightarrow> False | c # _ \<Rightarrow> c = CHR ''#'')"

text \<open>\<open>fields[k]\<close> on a list: out of range raises.\<close>

definition getitem :: "'a list \<Rightarrow> nat \<Rightarrow> error + 'a" where
  "getitem xs k = (if k < length xs then Inr (xs ! k) else Inl IndexError)"

text \<open>\<open>' '.join(words)\<close>.\<close>

fun join_space :: "string list \<Rightarrow> string" where
  "join_space [] = []"
| "join_space [w] = w"
| "join_space (w # ws) = w @ '' '' @ join_space ws"

section \<open>The corpus wrapper\<close>

text \<open>
  The per-sentence fields of \<open>ConllWrapper\<close>. The field \<open>lemmas\<close> of the source is
  \<open>lemmas_fld\<close> here, the source's name being a keyword. A relation is the pair
  (dependent id, head id).
\<close>

record conll_wrapper =
  conllu_name :: string
  tokens :: "string list list"
  lemmas_fld :: "string list list"
  pos :: "string list list"
  relations :: "(int \<times> int) list list"
  roots :: "int list"

definition init_wrapper :: "string \<Rightarrow> conll_wrapper" where
  "init_wrapper conll_file =
     \<lparr>conllu_name = conll_file, tokens = [], lemmas_fld = [], pos = [],
      relations = [], roots = []\<rparr>"

subsection \<open>remove_indices\<close>

text \<open>\<open>[v for i, v in enumerate(xs) if i not in indices_to_rm]\<close>\<close>

definition keep_not_in :: "nat list \<Rightarrow> 'a list \<Rightarrow> 'a list" where
  "keep_not_in indices_to_rm xs =
     map snd (filter (\<lambda>(i, v). i \<notin> set indices_to_rm) (enumerate 0 xs))"

definition remove_indices :: "nat list \<Rightarrow> conll_wrapper \<Rightarrow> conll_wrapper" where
  "remove_indices indices_to_rm self =
     (let s1 = (if tokens self \<noteq> []
                then self\<lparr>tokens := keep_not_in indices_to_rm (tokens self)\<rparr> else self);
          s2 = (if lemmas_fld s1 \<noteq> []
                then s1\<lparr>lemmas_fld := keep_not_in indices_to_rm (lemmas_fld s1)\<rparr> else s1);
          s3 = (if pos s2 \<noteq> []
                then s2\<lparr>pos := keep_not_in indices_to_rm (pos s2)\<rparr> else s2);
          s4 = (if relations s3 \<noteq> []
                then s3\<lparr>relations := keep_not_in indices_to_rm (relations s3)\<rparr> else s3);
          s5 = (if roots s4 \<noteq> []
                then s4\<lparr>roots := keep_not_in indices_to_rm (roots s4)\<rparr> else s4)
      in s5)"

text \<open>The original positions that survive a removal, in order.\<close>

definition surviving :: "nat list \<Rightarrow> nat \<Rightarrow> nat list" where
  "surviving indices_to_rm n = filter (\<lambda>i. i \<notin> set indices_to_rm) [0..<n]"

subsection \<open>read_conllu\<close>

text \<open>
  The file is the list of its lines as Python's file iteration yields them: each line
  keeps its terminating newline, the last line may lack one. The local lists of the
  function accumulate the rows of the sentence being read.
\<close>

record reader_locals =
  sentence_relations :: "(int \<times> int) list"
  sentence_tokens :: "string list"
  sentence_lemmas :: "string list"
  sentence_pos :: "string list"

definition empty_locals :: reader_locals where
  "empty_locals =
     \<lparr>sentence_relations = [], sentence_tokens = [], sentence_lemmas = [], sentence_pos = []\<rparr>"

definition newline :: string where
  "newline = [CHR 0x0A]"

definition tab :: char where
  "tab = CHR 0x09"

text \<open>The blank-line branch: the accumulated sentence is appended to the corpus fields.\<close>

definition commit_sentence :: "reader_locals \<Rightarrow> conll_wrapper \<Rightarrow> conll_wrapper" where
  "commit_sentence loc self =
     self\<lparr>relations := relations self @ [sentence_relations loc],
          tokens := tokens self @ [sentence_tokens loc],
          lemmas_fld := lemmas_fld self @ [sentence_lemmas loc],
          pos := pos self @ [sentence_pos loc]\<rparr>"

text \<open>
  The last branch: a row of tab-separated fields. The statements run in the order of the
  source, so the first failing one decides the exception.
\<close>

definition read_row ::
  "constants \<Rightarrow> string \<Rightarrow> reader_locals \<times> conll_wrapper \<Rightarrow>
     error + (reader_locals \<times> conll_wrapper)" where
  "read_row c line st =
     (let fields = split tab (strip line); loc = fst st; self = snd st in
      case getitem fields (CONLLU_ID c) of Inl e \<Rightarrow> Inl e | Inr f_id \<Rightarrow>
      if isdigit f_id then
        (case getitem fields (CONLLU_HEAD c) of Inl e \<Rightarrow> Inl e | Inr f_head \<Rightarrow>
         case py_int f_head of Inl e \<Rightarrow> Inl e | Inr head_id \<Rightarrow>
         case py_int f_id of Inl e \<Rightarrow> Inl e | Inr dep_id \<Rightarrow>
         let self1 = (if head_id = 0 then self\<lparr>roots := roots self @ [dep_id]\<rparr> else self) in
         case getitem fields (CONLLU_ORTH c) of Inl e \<Rightarrow> Inl e | Inr orth \<Rightarrow>
         case getitem fields (CONLLU_LEMMA c) of Inl e \<Rightarrow> Inl e | Inr lemma_f \<Rightarrow>
         case getitem fields (CONLLU_POS c) of Inl e \<Rightarrow> Inl e | Inr pos_f \<Rightarrow>
         let loc1 = loc\<lparr>sentence_relations := sentence_relations loc @ [(dep_id, head_id)],
                       sentence_tokens := sentence_tokens loc @ [orth],
                       sentence_lemmas := sentence_lemmas loc @ [lemma_f],
                       sentence_pos := sentence_pos loc @ [pos_f]\<rparr>
         in Inr (loc1, self1))
      else Inr (loc, self))"

fun read_lines ::
  "constants \<Rightarrow> string list \<Rightarrow> reader_locals \<times> conll_wrapper \<Rightarrow>
     error + (reader_locals \<times> conll_wrapper)" where
  "read_lines c [] st = Inr st"
| "read_lines c (line # rest) st =
     (if line = newline then read_lines c rest (empty_locals, commit_sentence (fst st) (snd st))
      else if startswith_hash line then read_lines c rest st
      else (case read_row c line st of Inl e \<Rightarrow> Inl e | Inr st' \<Rightarrow> read_lines c rest st'))"

definition read_conllu :: "constants \<Rightarrow> string list \<Rightarrow> conll_wrapper \<Rightarrow> error + conll_wrapper" where
  "read_conllu c file_lines self =
     (case read_lines c file_lines (empty_locals, self) of
        Inl e \<Rightarrow> Inl e
      | Inr st \<Rightarrow> Inr (snd st))"

text \<open>The root id a single line adds to \<open>roots\<close> (none for a blank line or a comment).\<close>

definition line_roots :: "constants \<Rightarrow> string \<Rightarrow> int list" where
  "line_roots c line =
     (if line = newline \<or> startswith_hash line then []
      else (case read_row c line (empty_locals, init_wrapper []) of
              Inl e \<Rightarrow> []
            | Inr st \<Rightarrow> roots (snd st)))"

subsection \<open>training_examples\<close>

definition wrap_wordpieces :: "tokenizer \<Rightarrow> string list \<Rightarrow> string list" where
  "wrap_wordpieces tk sent_tokens =
     [''[CLS]''] @ tokenize tk (join_space sent_tokens) @ [''[SEP]'']"

text \<open>
  The first loop: every sentence is tokenized as a whole; a sentence at or over a limit
  is recorded in \<open>indices_to_rm\<close>. (The counter \<open>number_examples\<close> is never read.)
\<close>

fun check_limits ::
  "constants \<Rightarrow> tokenizer \<Rightarrow> (nat \<times> string list) list \<Rightarrow>
     string list list \<times> nat list \<Rightarrow> string list list \<times> nat list" where
  "check_limits c tk [] acc = acc"
| "check_limits c tk ((idx, sent_tokens) # rest) acc =
     (let sent_wordpieces = wrap_wordpieces tk sent_tokens;
          wordpieces = fst acc @ [sent_wordpieces];
          indices_to_rm =
            (if length sent_tokens \<ge> MAX_TOKENS c then snd acc @ [idx]
             else if length sent_wordpieces \<ge> MAX_WORDPIECES c then snd acc @ [idx]
             else snd acc)
      in check_limits c tk rest (wordpieces, indices_to_rm))"

text \<open>
  \<open>a[lo:hi] = v\<close> on a one-dimensional array, for \<open>lo \<le> hi\<close>: the slice is clipped to
  the array, nothing is written beyond its end.
\<close>

definition slice_assign :: "int list \<Rightarrow> nat \<Rightarrow> nat \<Rightarrow> int \<Rightarrow> int list" where
  "slice_assign a lo hi v = take lo a @ replicate (min hi (length a) - lo) v @ drop hi a"

text \<open>The loop over the words of one sentence; the state is
  (\<open>sent_segments\<close>, \<open>segment_id\<close>, \<open>wordpiece_pointer\<close>).\<close>

fun assign_segments ::
  "tokenizer \<Rightarrow> string list \<Rightarrow> int list \<times> int \<times> nat \<Rightarrow> int list \<times> int \<times> nat" where
  "assign_segments tk [] st = st"
| "assign_segments tk (token # rest) (sent_segments, segment_id, wordpiece_pointer) =
     (let worpieces_per_token = length (tokenize tk token) in
      assign_segments tk rest
        (slice_assign sent_segments wordpiece_pointer
           (wordpiece_pointer + worpieces_per_token) segment_id,
         segment_id + 1,
         wordpiece_pointer + worpieces_per_token))"

definition get_bert_ids :: "constants \<Rightarrow> tokenizer \<Rightarrow> string list \<Rightarrow> int list" where
  "get_bert_ids c tk wordpieces =
     convert_tokens_to_ids tk wordpieces @
     replicate (MAX_WORDPIECES c - length wordpieces) 0"

text \<open>The lists the second loop builds, with the list of rejected indices.\<close>

record examples =
  segments :: "int list list"
  max_segment :: "int list"
  bert_ids :: "int list list"
  indices_to_rm :: "nat list"

fun align_sentences ::
  "constants \<Rightarrow> tokenizer \<Rightarrow> (string list \<times> string list) list \<Rightarrow> nat \<Rightarrow>
     examples \<Rightarrow> examples" where
  "align_sentences c tk [] sent_idx acc = acc"
| "align_sentences c tk ((sent_wordpieces, sent_tokens) # rest) sent_idx acc =
     (if sent_idx \<in> set (indices_to_rm acc) then align_sentences c tk rest (sent_idx + 1) acc
      else
        (case assign_segments tk sent_tokens (replicate (MAX_WORDPIECES c) (- 1), 0, 1) of
           (sent_segments, segment_id, wordpiece_pointer) \<Rightarrow>
             if wordpiece_pointer + 1 \<noteq> length sent_wordpieces
             then align_sentences c tk rest (sent_idx + 1)
                    (acc\<lparr>indices_to_rm := indices_to_rm acc @ [sent_idx]\<rparr>)
             else align_sentences c tk rest (sent_idx + 1)
                    (acc\<lparr>segments := segments acc @ [sent_segments],
                         bert_ids := bert_ids acc @ [get_bert_ids c tk sent_wordpieces],
                         max_segment := max_segment acc @ [segment_id]\<rparr>)))"

text \<open>
  The function returns the three stacked lists and mutates the wrapper; the model
  returns the lists (with the rejected indices) and the wrapper after the removal. The
  stacked tensors are the lists of their rows. The ids are \<open>int64\<close> in the source and
  integers here: a segment id is below \<open>MAX_TOKENS\<close>, so nothing overflows.
\<close>

definition training_examples ::
  "constants \<Rightarrow> tokenizer \<Rightarrow> conll_wrapper \<Rightarrow> examples \<times> conll_wrapper" where
  "training_examples c tk self =
     (let first_pass = check_limits c tk (enumerate 0 (tokens self)) ([], []);
          ex = align_sentences c tk (zip (fst first_pass) (tokens self)) 0
                 \<lparr>segments = [], max_segment = [], bert_ids = [],
                  indices_to_rm = snd first_pass\<rparr>
      in (ex, remove_indices (indices_to_rm ex) self))"

text \<open>The constructor: it reads the file and aligns the sentences, dropping the result.\<close>

definition new_conll_wrapper ::
  "constants \<Rightarrow> tokenizer \<Rightarrow> string \<Rightarrow> string list \<Rightarrow> error + conll_wrapper" where
  "new_conll_wrapper c tk conll_file file_lines =
     (case read_conllu c file_lines (init_wrapper conll_file) of
        Inl e \<Rightarrow> Inl e
      | Inr self \<Rightarrow> Inr (snd (training_examples c tk self)))"

subsection \<open>Concrete inputs\<close>

text \<open>The column numbers of the CoNLL-U format, with small limits.\<close>

definition conllu_constants :: constants where
  "conllu_constants =
     \<lparr>CONLLU_ID = 0, CONLLU_ORTH = 1, CONLLU_LEMMA = 2, CONLLU_POS = 3, CONLLU_HEAD = 6,
      MAX_TOKENS = 4, MAX_WORDPIECES = 8\<rparr>"

text \<open>A tokenizer that makes one wordpiece of every character other than a space.\<close>

definition char_tokenizer :: tokenizer where
  "char_tokenizer =
     \<lparr>tokenize = (\<lambda>s. map (\<lambda>ch. [ch]) (filter (\<lambda>ch. ch \<noteq> CHR '' '') s)),
      convert_tokens_to_ids = map (\<lambda>p. int (length p))\<rparr>"

text \<open>A tokenizer that keeps a text with a space in one piece and splits a single word
  into its characters: the joined and the per-word tokenizations differ.\<close>

definition merging_tokenizer :: tokenizer where
  "merging_tokenizer =
     \<lparr>tokenize = (\<lambda>s. if CHR '' '' \<in> set s then [s] else map (\<lambda>ch. [ch]) s),
      convert_tokens_to_ids = map (\<lambda>p. int (length p))\<rparr>"

definition small_corpus :: conll_wrapper where
  "small_corpus =
     \<lparr>conllu_name = ''small'',
      tokens = [[''ab'', ''c''], [''a'', ''b'', ''c'', ''d''], [''xy''], [''abcd'', ''efg'']],
      lemmas_fld = [[''ab'', ''c''], [''a'', ''b'', ''c'', ''d''], [''xy''], [''abcd'', ''efg'']],
      pos = [[''X'', ''Y''], [''X'', ''X'', ''X'', ''X''], [''Z''], [''X'', ''Y'']],
      relations = [[(1, 0), (2, 1)], [(1, 0), (2, 1), (3, 1), (4, 1)], [(1, 0)], [(1, 2), (2, 0)]],
      roots = [1, 1, 1, 2]\<rparr>"

text \<open>An annotated file whose last sentence is not closed by a blank line.\<close>

fun tab_joined :: "string list \<Rightarrow> string" where
  "tab_joined [] = []"
| "tab_joined [f] = f"
| "tab_joined (f # fs) = f @ [tab] @ tab_joined fs"

definition terminated_part :: "string list" where
  "terminated_part =
     [''# sent_id = 1'' @ newline,
      tab_joined [''1'', ''A'', ''a'', ''X'', ''_'', ''_'', ''0'', ''root''] @ newline,
      newline]"

definition trailing_rows :: "string list" where
  "trailing_rows =
     [tab_joined [''1'', ''B'', ''b'', ''Y'', ''_'', ''_'', ''2'', ''dep''] @ newline,
      tab_joined [''2'', ''C'', ''c'', ''Z'', ''_'', ''_'', ''0'', ''root'']]"

text \<open>A corpus of one sentence whose second word is empty.\<close>

definition gap_corpus :: conll_wrapper where
  "gap_corpus =
     \<lparr>conllu_name = ''gap'', tokens = [[''a'', [], ''b'']],
      lemmas_fld = [[''a'', [], ''b'']], pos = [[''X'', ''Y'', ''Z'']],
      relations = [[(1, 0), (2, 1), (3, 1)]], roots = [1]\<rparr>"

text \<open>
  An annotated file of three sentences, each closed by a blank line: the first has two
  roots, the second has four words (as many as \<open>MAX_TOKENS\<close> of the small limits), the
  third has its root in its second word.
\<close>

definition two_root_file :: "string list" where
  "two_root_file =
     [tab_joined [''1'', ''A'', ''a'', ''X'', ''_'', ''_'', ''0'', ''root''] @ newline,
      tab_joined [''2'', ''B'', ''b'', ''X'', ''_'', ''_'', ''0'', ''root''] @ newline,
      newline,
      tab_joined [''1'', ''C'', ''c'', ''X'', ''_'', ''_'', ''0'', ''root''] @ newline,
      tab_joined [''2'', ''D'', ''d'', ''X'', ''_'', ''_'', ''1'', ''dep''] @ newline,
      tab_joined [''3'', ''E'', ''e'', ''X'', ''_'', ''_'', ''1'', ''dep''] @ newline,
      tab_joined [''4'', ''F'', ''f'', ''X'', ''_'', ''_'', ''1'', ''dep''] @ newline,
      newline,
      tab_joined [''1'', ''G'', ''g'', ''X'', ''_'', ''_'', ''2'', ''dep''] @ newline,
      tab_joined [''2'', ''H'', ''h'', ''X'', ''_'', ''_'', ''0'', ''root''] @ newline,
      newline]"

subsection \<open>Notions used to state the properties\<close>

text \<open>The number of wordpieces of every word of a sentence, each word tokenized alone.\<close>

definition word_pieces :: "tokenizer \<Rightarrow> string list \<Rightarrow> nat list" where
  "word_pieces tk sent_tokens = map (\<lambda>token. length (tokenize tk token)) sent_tokens"

text \<open>For counts \<open>k0, k1, ...\<close>: \<open>k0\<close> times \<open>w\<close>, then \<open>k1\<close> times \<open>w + 1\<close>, and so on.\<close>

fun segment_run :: "int \<Rightarrow> nat list \<Rightarrow> int list" where
  "segment_run w [] = []"
| "segment_run w (k # ks) = replicate k w @ segment_run (w + 1) ks"

text \<open>The test of the first loop: the sentence is at or over one of the two limits.\<close>

definition over_limit :: "constants \<Rightarrow> tokenizer \<Rightarrow> string list \<Rightarrow> bool" where
  "over_limit c tk sent_tokens =
     (length sent_tokens \<ge> MAX_TOKENS c \<or>
      length (wrap_wordpieces tk sent_tokens) \<ge> MAX_WORDPIECES c)"

text \<open>The test of the second loop, with the pointer written out: one for the opening
  marker, the wordpieces of the words, one for the closing marker.\<close>

definition pointer_fits :: "tokenizer \<Rightarrow> string list \<Rightarrow> bool" where
  "pointer_fits tk sent_tokens =
     (1 + sum_list (word_pieces tk sent_tokens) + 1 = length (wrap_wordpieces tk sent_tokens))"

text \<open>A sentence that neither loop rejects.\<close>

definition sentence_kept :: "constants \<Rightarrow> tokenizer \<Rightarrow> string list \<Rightarrow> bool" where
  "sentence_kept c tk sent_tokens =
     (\<not> over_limit c tk sent_tokens \<and> pointer_fits tk sent_tokens)"

text \<open>The segment map the inner loop leaves for a sentence.\<close>

definition sent_segments_of :: "constants \<Rightarrow> tokenizer \<Rightarrow> string list \<Rightarrow> int list" where
  "sent_segments_of c tk sent_tokens =
     fst (assign_segments tk sent_tokens (replicate (MAX_WORDPIECES c) (- 1), 0, 1))"

text \<open>The sentences, and the indices, that the second loop keeps and rejects when it starts
  at index \<open>k\<close> with the rejected indices \<open>rm\<close>.\<close>

definition kept_of :: "tokenizer \<Rightarrow> nat list \<Rightarrow> nat \<Rightarrow> string list list \<Rightarrow> string list list" where
  "kept_of tk rm k ts =
     map snd (filter (\<lambda>p. fst p \<notin> set rm \<and> pointer_fits tk (snd p)) (enumerate k ts))"

definition mismatched_of :: "tokenizer \<Rightarrow> nat list \<Rightarrow> nat \<Rightarrow> string list list \<Rightarrow> nat list" where
  "mismatched_of tk rm k ts =
     map fst (filter (\<lambda>p. fst p \<notin> set rm \<and> \<not> pointer_fits tk (snd p)) (enumerate k ts))"

text \<open>The row of the stacked results that sentence \<open>i\<close> occupies: the number of sentences
  before it that are not rejected.\<close>

definition output_position :: "examples \<Rightarrow> nat \<Rightarrow> nat" where
  "output_position ex i = length (filter (\<lambda>k. k \<notin> set (indices_to_rm ex)) [0..<i])"

section \<open>The distance probe\<close>

text \<open>
  Tensors are nested lists. The \<open>float32\<close> numbers of the source are modelled by real
  numbers: rounding is not modelled. A float that is infinite or not a number has no real
  value and is \<open>None\<close> in the type \<open>fval\<close>; it arises here from a division by zero and from
  the mean of no values.
\<close>

type_synonym vector = "real list"

type_synonym matrix = "real list list"

type_synonym tensor3 = "real list list list"

type_synonym fval = "real option"

text \<open>
  A batch, as the batcher hands it to the probe. The fields \<open>wordpieces\<close> and \<open>segments\<close>
  of the source are \<open>batch_wordpieces\<close> and \<open>batch_segments\<close> here.
\<close>

record batch =
  batch_wordpieces :: "int list list"
  batch_segments :: "int list list"
  max_token_len :: "nat list"
  token_len :: "int list"
  target :: tensor3
  language :: string

text \<open>
  The state of a \<open>DistanceProbe\<close>. The embedding model is the frozen transformer, a
  function from a batch of wordpiece ids to one vector per position. The dictionary
  \<open>Language_Maps\<close> is a map from language to matrix.
\<close>

record distance_probe =
  probe_rank :: nat
  model_dim :: nat
  languages :: "string list"
  bert_model :: "int list list \<Rightarrow> tensor3"
  Distance_Probe :: matrix
  Language_Maps :: "string \<rightharpoonup> matrix"

definition eye :: "nat \<Rightarrow> matrix" where
  "eye n = map (\<lambda>i. map (\<lambda>j. if i = j then 1 else 0) [0..<n]) [0..<n]"

text \<open>
  The constructor. The initial projection comes from a seeded random initializer and is
  a parameter; every language gets the identity as its map.
\<close>

definition new_probe ::
  "nat \<Rightarrow> nat \<Rightarrow> string list \<Rightarrow> (int list list \<Rightarrow> tensor3) \<Rightarrow> matrix \<Rightarrow> distance_probe" where
  "new_probe p_rank m_dim langs bert glorot =
     \<lparr>probe_rank = p_rank, model_dim = m_dim, languages = langs, bert_model = bert,
      Distance_Probe = glorot,
      Language_Maps = map_of (map (\<lambda>lang. (lang, eye m_dim)) langs)\<rparr>"

subsection \<open>Tensor operations\<close>

text \<open>The first error of a list of results, or all the values.\<close>

fun collect :: "(error + 'a) list \<Rightarrow> error + 'a list" where
  "collect [] = Inr []"
| "collect (r # rs) =
     (case r of Inl e \<Rightarrow> Inl e
      | Inr x \<Rightarrow> (case collect rs of Inl e \<Rightarrow> Inl e | Inr xs \<Rightarrow> Inr (x # xs)))"

definition row_dim :: "matrix \<Rightarrow> nat" where
  "row_dim m = (case m of [] \<Rightarrow> 0 | r # _ \<Rightarrow> length r)"

definition vec_add :: "vector \<Rightarrow> vector \<Rightarrow> vector" where
  "vec_add a b = map2 (+) a b"

text \<open>
  \<open>tf.math.unsorted_segment_mean(data, segment_ids, num_segments)\<close> on the rows of a
  matrix: row \<open>s\<close> of the result is the mean of the rows of \<open>data\<close> whose segment id is
  \<open>s\<close>, and zero when there is none; rows with a negative id are dropped. An id at or
  over \<open>num_segments\<close> is an error (as the operation on CPU reports it), and so is a list
  of ids that is not as long as the data.
\<close>

definition unsorted_segment_mean :: "matrix \<Rightarrow> int list \<Rightarrow> nat \<Rightarrow> error + matrix" where
  "unsorted_segment_mean data segment_ids num_segments =
     (if length segment_ids \<noteq> length data \<or> list_ex (\<lambda>s. int num_segments \<le> s) segment_ids
      then Inl InvalidArgumentError
      else Inr (map (\<lambda>s.
             let rows = map fst (filter (\<lambda>p. snd p = int s) (zip data segment_ids));
                 total = foldr vec_add rows (replicate (row_dim data) 0)
             in map (\<lambda>x. x / real (max (length rows) 1)) total)
           [0..<num_segments]))"

text \<open>The product of a matrix with a matrix of as many rows as the first has columns.\<close>

definition matmul :: "matrix \<Rightarrow> matrix \<Rightarrow> error + matrix" where
  "matmul a m =
     (if list_all (\<lambda>row. length row = length m) a \<and>
         list_all (\<lambda>row. length row = row_dim m) m
      then Inr (map (\<lambda>row. map (\<lambda>j. sum_list (map2 (\<lambda>x r. x * r ! j) row m)) [0..<row_dim m]) a)
      else Inl InvalidArgumentError)"

text \<open>\<open>embeddings @ m\<close> for a batch of matrices: the same matrix multiplies every sentence.\<close>

definition batch_matmul :: "tensor3 \<Rightarrow> matrix \<Rightarrow> error + tensor3" where
  "batch_matmul t m = collect (map (\<lambda>a. matmul a m) t)"

text \<open>
  The last three lines of \<open>forward\<close> for one sentence: entry \<open>(i, j)\<close> is the sum over the
  features of the squares of \<open>e[j] - e[i]\<close>.
\<close>

definition squared_diffs :: "matrix \<Rightarrow> matrix" where
  "squared_diffs e =
     map (\<lambda>ei. map (\<lambda>ej. sum_list (map (\<lambda>d. d\<^sup>2) (map2 (-) ej ei))) e) e"

subsection \<open>forward\<close>

text \<open>
  The dictionary lookup \<open>Language_Maps[batch.language]\<close> raises \<open>KeyError\<close> for a language
  without a map; it is Python's and fails when the function is traced, before any tensor
  operation runs. \<open>map_fn\<close> needs one segment map and one segment count per sentence and
  results of one shape, so all entries of \<open>max_token_len\<close> have to agree; the reshape to
  \<open>max_token_len[0]\<close> words then changes nothing.
\<close>

definition forward :: "distance_probe \<Rightarrow> batch \<Rightarrow> error + tensor3" where
  "forward self batch =
     (case Language_Maps self (language batch) of
        None \<Rightarrow> Inl KeyError
      | Some language_map \<Rightarrow>
     (let embeddings = bert_model self (batch_wordpieces batch) in
      if length (batch_segments batch) \<noteq> length embeddings \<or>
         length (max_token_len batch) \<noteq> length embeddings
      then Inl InvalidArgumentError
      else
        (case collect (map (\<lambda>x. unsorted_segment_mean (fst x) (fst (snd x)) (snd (snd x)))
                 (zip embeddings (zip (batch_segments batch) (max_token_len batch)))) of
           Inl e \<Rightarrow> Inl e
         | Inr pooled \<Rightarrow>
        (case max_token_len batch of
           [] \<Rightarrow> Inl InvalidArgumentError
         | n0 # _ \<Rightarrow>
        if \<not> list_all (\<lambda>n. n = n0) (max_token_len batch) then Inl InvalidArgumentError
        else
          (case batch_matmul pooled language_map of
             Inl e \<Rightarrow> Inl e
           | Inr mapped \<Rightarrow>
          (case batch_matmul mapped (Distance_Probe self) of
             Inl e \<Rightarrow> Inl e
           | Inr projected \<Rightarrow> Inr (map squared_diffs projected)))))))"

subsection \<open>The loss\<close>

definition fdiv :: "real \<Rightarrow> real \<Rightarrow> fval" where
  "fdiv x d = (if d = 0 then None else Some (x / d))"

definition reduce_mean :: "fval list \<Rightarrow> fval" where
  "reduce_mean xs =
     (if xs = [] \<or> list_ex (\<lambda>x. x = None) xs then None
      else Some (sum_list (map the xs) / real (length xs)))"

text \<open>\<open>tf.reduce_sum(tf.abs(p - g), axis=[1, 2])\<close> for one sentence.\<close>

definition abs_diff_sum :: "matrix \<Rightarrow> matrix \<Rightarrow> real" where
  "abs_diff_sum p g = sum_list (map sum_list (map2 (map2 (\<lambda>x y. \<bar>x - y\<bar>)) p g))"

text \<open>
  The method \<open>_loss\<close>. The two tensors and the lengths come from one batch and have equal
  shapes; broadcasting of unequal shapes is not modelled and reported as an error.
\<close>

definition loss :: "tensor3 \<Rightarrow> tensor3 \<Rightarrow> int list \<Rightarrow> error + fval" where
  "loss predicted_distances gold_distances token_lens =
     (if map (map length) predicted_distances \<noteq> map (map length) gold_distances \<or>
         length token_lens \<noteq> length predicted_distances
      then Inl InvalidArgumentError
      else
        (let sentence_sums = map2 abs_diff_sum predicted_distances gold_distances;
             sentence_loss = map2 (\<lambda>s n. fdiv s ((real_of_int n)\<^sup>2)) sentence_sums token_lens
         in Inr (reduce_mean sentence_loss)))"

definition evaluate_on_batch :: "distance_probe \<Rightarrow> batch \<Rightarrow> error + fval" where
  "evaluate_on_batch self batch =
     (case forward self batch of
        Inl e \<Rightarrow> Inl e
      | Inr predicted_distances \<Rightarrow> loss predicted_distances (target batch) (token_len batch))"

subsection \<open>train_on_batch\<close>

text \<open>
  Automatic differentiation and the Adam optimizer are TensorFlow's and are parameters
  of the model. \<open>tape.gradient(loss, variables)\<close> for the two watched variables gets the
  loss as a function of their values and returns one gradient for each (\<open>None\<close> for a
  variable the loss does not depend on). An optimizer computes the new value of a
  variable from its own state, the name of the variable, the gradient and the old value,
  and advances its state.
\<close>

type_synonym gradient_fn =
  "(matrix \<Rightarrow> matrix \<Rightarrow> error + fval) \<Rightarrow> matrix \<Rightarrow> matrix \<Rightarrow> matrix option \<times> matrix option"

record 'o optimizer =
  update_variable :: "'o \<Rightarrow> string \<Rightarrow> matrix \<Rightarrow> matrix \<Rightarrow> matrix"
  advance :: "'o \<Rightarrow> 'o"

text \<open>The batch loss as a function of the values of the two variables of the step.\<close>

definition batch_loss_of ::
  "distance_probe \<Rightarrow> batch \<Rightarrow> matrix \<Rightarrow> matrix \<Rightarrow> error + fval" where
  "batch_loss_of self batch probe_value map_value =
     evaluate_on_batch
       (self\<lparr>Distance_Probe := probe_value,
             Language_Maps := (Language_Maps self)(language batch \<mapsto> map_value)\<rparr>) batch"

text \<open>
  The state is the probe with the state of its optimizer. \<open>apply_gradients\<close> raises
  \<open>ValueError\<close> when no variable has a gradient and skips a variable without one. The
  names are those the constructor gives the variables.
\<close>

definition train_on_batch ::
  "gradient_fn \<Rightarrow> 'o optimizer \<Rightarrow> distance_probe \<times> 'o \<Rightarrow> batch \<Rightarrow>
     error + (fval \<times> distance_probe \<times> 'o)" where
  "train_on_batch tape_gradient opt st batch =
     (let self = fst st; opt_state = snd st in
      case forward self batch of Inl e \<Rightarrow> Inl e | Inr predicted_distances \<Rightarrow>
      case loss predicted_distances (target batch) (token_len batch) of
        Inl e \<Rightarrow> Inl e
      | Inr loss_value \<Rightarrow>
      case Language_Maps self (language batch) of
        None \<Rightarrow> Inl KeyError
      | Some language_map \<Rightarrow>
      let gradients = tape_gradient (batch_loss_of self batch) (Distance_Probe self) language_map;
          new_probe_value =
            (case fst gradients of
               None \<Rightarrow> Distance_Probe self
             | Some g \<Rightarrow> update_variable opt opt_state ''distance_probe'' g (Distance_Probe self));
          new_map_value =
            (case snd gradients of
               None \<Rightarrow> language_map
             | Some g \<Rightarrow> update_variable opt opt_state (language batch @ ''_map'') g language_map)
      in if fst gradients = None \<and> snd gradients = None then Inl ValueError
         else Inr (loss_value,
                   self\<lparr>Distance_Probe := new_probe_value,
                         Language_Maps := (Language_Maps self)(language batch \<mapsto> new_map_value)\<rparr>,
                   advance opt opt_state))"

subsection \<open>evaluate\<close>

text \<open>
  The loop header \<open>for lang_idx, language in self.languages\<close> unpacks every element of
  the list of languages into two. The elements are the language names the constructor
  keys the maps with, so it is a string that is unpacked: one of two characters gives its
  two characters as one-character strings, any other length raises \<open>ValueError\<close>.
  \<open>lang_idx\<close> then indexes the NumPy array of losses; a value used as an index is an
  integer or a string here.
\<close>

datatype index = IdxInt int | IdxStr string

definition unpack_pair :: "string \<Rightarrow> error + (index \<times> string)" where
  "unpack_pair s = (case s of [a, b] \<Rightarrow> Inr (IdxStr [a], [b]) | _ \<Rightarrow> Inl ValueError)"

text \<open>
  \<open>a[k]\<close> and \<open>a[k] = v\<close> on a one-dimensional array: an integer counts from the end when
  negative and raises \<open>IndexError\<close> out of range; a string is no valid index and raises
  \<open>IndexError\<close>.
\<close>

definition array_position :: "'a list \<Rightarrow> index \<Rightarrow> error + nat" where
  "array_position a k =
     (case k of
        IdxStr s \<Rightarrow> Inl IndexError
      | IdxInt i \<Rightarrow>
          (let n = int (length a); j = (if i < 0 then i + n else i)
           in if 0 \<le> j \<and> j < n then Inr (nat j) else Inl IndexError))"

definition np_getitem :: "'a list \<Rightarrow> index \<Rightarrow> error + 'a" where
  "np_getitem a k = (case array_position a k of Inl e \<Rightarrow> Inl e | Inr j \<Rightarrow> Inr (a ! j))"

definition np_setitem :: "'a list \<Rightarrow> index \<Rightarrow> 'a \<Rightarrow> error + 'a list" where
  "np_setitem a k v = (case array_position a k of Inl e \<Rightarrow> Inl e | Inr j \<Rightarrow> Inr (a[j := v]))"

definition fadd :: "fval \<Rightarrow> fval \<Rightarrow> fval" where
  "fadd x y = (case x of None \<Rightarrow> None | Some a \<Rightarrow> (case y of None \<Rightarrow> None | Some b \<Rightarrow> Some (a + b)))"

definition fdiv_count :: "fval \<Rightarrow> nat \<Rightarrow> fval" where
  "fdiv_count x n = (case x of None \<Rightarrow> None | Some a \<Rightarrow> fdiv a (real n))"

text \<open>
  The inner loop over the enumerated batches of one language; the state is
  (\<open>batch_idx\<close>, \<open>all_losses\<close>).
\<close>

fun evaluate_batch_loop ::
  "distance_probe \<Rightarrow> index \<Rightarrow> (nat \<times> batch) list \<Rightarrow> nat \<times> fval list \<Rightarrow>
     error + (nat \<times> fval list)" where
  "evaluate_batch_loop self lang_idx [] st = Inr st"
| "evaluate_batch_loop self lang_idx ((idx, batch) # rest) st =
     (case evaluate_on_batch self batch of Inl e \<Rightarrow> Inl e | Inr batch_loss \<Rightarrow>
      case np_getitem (snd st) lang_idx of Inl e \<Rightarrow> Inl e | Inr slot \<Rightarrow>
      case np_setitem (snd st) lang_idx (fadd slot batch_loss) of
        Inl e \<Rightarrow> Inl e
      | Inr all_losses \<Rightarrow> evaluate_batch_loop self lang_idx rest (idx, all_losses))"

text \<open>
  The outer loop; its variable \<open>language\<close> is \<open>lang\<close> here.
  \<open>data.evaluate_batches(batch_size, language)\<close> is the batcher's and a parameter.
\<close>

fun evaluate_languages ::
  "distance_probe \<Rightarrow> (nat \<Rightarrow> string \<Rightarrow> batch list) \<Rightarrow> nat \<Rightarrow> string list \<Rightarrow> fval list \<Rightarrow>
     error + fval list" where
  "evaluate_languages self evaluate_batches batch_size [] all_losses = Inr all_losses"
| "evaluate_languages self evaluate_batches batch_size (entry # rest) all_losses =
     (case unpack_pair entry of Inl e \<Rightarrow> Inl e | Inr (lang_idx, lang) \<Rightarrow>
      case evaluate_batch_loop self lang_idx
             (enumerate 0 (evaluate_batches batch_size lang)) (0, all_losses) of
        Inl e \<Rightarrow> Inl e
      | Inr (batch_idx, summed) \<Rightarrow>
      case np_getitem summed lang_idx of Inl e \<Rightarrow> Inl e | Inr slot \<Rightarrow>
      case np_setitem summed lang_idx (fdiv_count slot (batch_idx + 1)) of
        Inl e \<Rightarrow> Inl e
      | Inr averaged \<Rightarrow> evaluate_languages self evaluate_batches batch_size rest averaged)"

definition evaluate ::
  "distance_probe \<Rightarrow> (nat \<Rightarrow> string \<Rightarrow> batch list) \<Rightarrow> nat \<Rightarrow> error + fval" where
  "evaluate self evaluate_batches batch_size =
     (case evaluate_languages self evaluate_batches batch_size (languages self)
             (replicate (length (languages self)) (Some 0)) of
        Inl e \<Rightarrow> Inl e
      | Inr all_losses \<Rightarrow> Inr (reduce_mean all_losses))"

subsection \<open>A concrete probe and batch\<close>

text \<open>
  An embedding model that makes the one-dimensional vector \<open>[id]\<close> of every wordpiece id,
  a probe for two languages on it, and a batch of one sentence of two words: the first
  word has two wordpieces, the second one.
\<close>

definition toy_bert :: "int list list \<Rightarrow> tensor3" where
  "toy_bert wp = map (map (\<lambda>i. [real_of_int i])) wp"

definition toy_probe :: distance_probe where
  "toy_probe = new_probe 1 1 [''en'', ''de''] toy_bert [[2]]"

definition toy_batch :: batch where
  "toy_batch =
     \<lparr>batch_wordpieces = [[7, 1, 3, 5, 9, 0]], batch_segments = [[- 1, 0, 0, 1, - 1, - 1]],
      max_token_len = [2], token_len = [2], target = [[[0, 1], [1, 0]]], language = ''en''\<rparr>"

text \<open>
  A stand-in for automatic differentiation that returns a gradient of ones for both
  variables, and a plain gradient step of rate one tenth as optimizer, counting its steps.
\<close>

definition ones_gradient :: gradient_fn where
  "ones_gradient f probe_value map_value =
     (Some (map (map (\<lambda>x. 1)) probe_value), Some (map (map (\<lambda>x. 1)) map_value))"

definition step_optimizer :: "nat optimizer" where
  "step_optimizer =
     \<lparr>update_variable = (\<lambda>st name g v. map2 (map2 (\<lambda>x d. x - d / 10)) v g),
      advance = Suc\<rparr>"

section \<open>Properties of the corpus wrapper\<close>

lemma filter_enumerate:
  "map snd (filter (\<lambda>(i, v). P i) (enumerate n xs)) =
   map (\<lambda>i. xs ! (i - n)) (filter P [n..<n + length xs])"
proof (induction xs arbitrary: n)
  case Nil
  then show ?case by simp
next
  case (Cons x xs)
  have "[n..<n + length (x # xs)] = n # [Suc n..<Suc n + length xs]"
    by (simp add: upt_rec)
  moreover have "map (\<lambda>i. (x # xs) ! (i - n)) (filter P [Suc n..<Suc n + length xs]) =
                 map (\<lambda>i. xs ! (i - Suc n)) (filter P [Suc n..<Suc n + length xs])"
  proof (rule map_cong [OF refl])
    fix i assume "i \<in> set (filter P [Suc n..<Suc n + length xs])"
    then have "Suc n \<le> i" by auto
    then show "(x # xs) ! (i - n) = xs ! (i - Suc n)"
      by (simp add: nth_Cons')
  qed
  ultimately show ?case using Cons.IH [of "Suc n"] by simp
qed

lemma keep_not_in_map: "keep_not_in rm xs = map ((!) xs) (surviving rm (length xs))"
  using filter_enumerate [of "\<lambda>i. i \<notin> set rm" 0 xs]
  by (simp add: keep_not_in_def surviving_def)

lemma keep_not_in_Nil: "keep_not_in rm [] = []"
  by (simp add: keep_not_in_def)

lemma remove_indices_fields:
  "tokens (remove_indices rm self) = keep_not_in rm (tokens self)"
  "lemmas_fld (remove_indices rm self) = keep_not_in rm (lemmas_fld self)"
  "pos (remove_indices rm self) = keep_not_in rm (pos self)"
  "relations (remove_indices rm self) = keep_not_in rm (relations self)"
  "roots (remove_indices rm self) = keep_not_in rm (roots self)"
  "conllu_name (remove_indices rm self) = conllu_name self"
  by (simp_all add: remove_indices_def Let_def keep_not_in_Nil)

text \<open>
  The four fields that \<open>read_conllu\<close> appends to at a blank line stay aligned under a
  removal: when they have a common length, each of them afterwards is the original read
  at the same surviving positions. The field \<open>roots\<close> is filtered by the same indices.
\<close>

lemma remove_indices_sentence_fields:
  assumes "length (tokens self) = n" and "length (lemmas_fld self) = n"
    and "length (pos self) = n" and "length (relations self) = n"
  shows "tokens (remove_indices rm self) = map ((!) (tokens self)) (surviving rm n) \<and>
         lemmas_fld (remove_indices rm self) = map ((!) (lemmas_fld self)) (surviving rm n) \<and>
         pos (remove_indices rm self) = map ((!) (pos self)) (surviving rm n) \<and>
         relations (remove_indices rm self) = map ((!) (relations self)) (surviving rm n) \<and>
         roots (remove_indices rm self) =
           map ((!) (roots self)) (surviving rm (length (roots self)))"
  using assms by (auto simp: remove_indices_fields keep_not_in_map)

lemma read_row_frame:
  assumes "read_row c line st = Inr st'" and "line \<noteq> newline" and "\<not> startswith_hash line"
  shows "tokens (snd st') = tokens (snd st) \<and> lemmas_fld (snd st') = lemmas_fld (snd st) \<and>
         pos (snd st') = pos (snd st) \<and> relations (snd st') = relations (snd st) \<and>
         roots (snd st') = roots (snd st) @ line_roots c line"
  using assms
  by (auto simp: read_row_def line_roots_def Let_def init_wrapper_def split: sum.splits if_splits)

lemma read_lines_append:
  "read_lines c (pre @ rows) st =
     (case read_lines c pre st of Inl e \<Rightarrow> Inl e | Inr st1 \<Rightarrow> read_lines c rows st1)"
  by (induction pre arbitrary: st) (auto split: sum.splits)

lemma read_lines_no_blank:
  assumes "list_all (\<lambda>l. l \<noteq> newline) rows" and "read_lines c rows st = Inr st'"
  shows "tokens (snd st') = tokens (snd st) \<and> lemmas_fld (snd st') = lemmas_fld (snd st) \<and>
         pos (snd st') = pos (snd st) \<and> relations (snd st') = relations (snd st) \<and>
         roots (snd st') = roots (snd st) @ concat (map (line_roots c) rows)"
  using assms
proof (induction rows arbitrary: st)
  case Nil
  then show ?case by simp
next
  case (Cons line rows)
  show ?case
  proof (cases "startswith_hash line")
    case True
    with Cons show ?thesis by (simp add: line_roots_def)
  next
    case False
    with Cons.prems obtain st1 where r: "read_row c line st = Inr st1"
      and l: "read_lines c rows st1 = Inr st'"
      by (auto split: sum.splits)
    from Cons.prems have nb: "line \<noteq> newline" "list_all (\<lambda>l. l \<noteq> newline) rows" by simp_all
    from read_row_frame [OF r nb(1) False] Cons.IH [OF nb(2) l]
    show ?thesis by simp
  qed
qed

text \<open>
  Claim C9. Let the lines of a file be \<open>pre @ rows\<close> where no line of \<open>rows\<close> is blank (the
  file ends inside a sentence). Whenever \<open>read_conllu\<close> returns, the tokens, lemmas, POS
  tags and relations it leaves are those of reading \<open>pre\<close> alone: the rows after the last
  blank line are never appended to these fields. The ids of their root rows are in
  \<open>roots\<close> all the same.
\<close>

theorem read_conllu_unterminated_sentence:
  assumes "list_all (\<lambda>l. l \<noteq> newline) rows"
    and "read_conllu c (pre @ rows) self = Inr self'"
  shows "\<exists>self0. read_conllu c pre self = Inr self0 \<and>
           tokens self' = tokens self0 \<and> lemmas_fld self' = lemmas_fld self0 \<and>
           pos self' = pos self0 \<and> relations self' = relations self0 \<and>
           roots self' = roots self0 @ concat (map (line_roots c) rows)"
proof -
  from assms(2) obtain st' where a: "read_lines c (pre @ rows) (empty_locals, self) = Inr st'"
    and s: "self' = snd st'"
    by (auto simp: read_conllu_def split: sum.splits)
  from a obtain st1 where p: "read_lines c pre (empty_locals, self) = Inr st1"
    and q: "read_lines c rows st1 = Inr st'"
    by (auto simp: read_lines_append split: sum.splits)
  from read_lines_no_blank [OF assms(1) q] p s show ?thesis
    by (simp add: read_conllu_def)
qed

lemma read_terminated:
  "read_conllu conllu_constants terminated_part (init_wrapper ''f'') =
     Inr \<lparr>conllu_name = ''f'', tokens = [[''A'']], lemmas_fld = [[''a'']], pos = [[''X'']],
          relations = [[(1, 0)]], roots = [1]\<rparr>"
  by code_simp

lemma read_unterminated:
  "read_conllu conllu_constants (terminated_part @ trailing_rows) (init_wrapper ''f'') =
     Inr \<lparr>conllu_name = ''f'', tokens = [[''A'']], lemmas_fld = [[''a'']], pos = [[''X'']],
          relations = [[(1, 0)]], roots = [1, 2]\<rparr>"
  by code_simp

lemma trailing_no_blank: "list_all (\<lambda>l. l \<noteq> newline) trailing_rows"
  by code_simp

lemma trailing_roots: "concat (map (line_roots conllu_constants) trailing_rows) = [2]"
  by code_simp

theorem read_conllu_unterminated_sentence_witness:
  "list_all (\<lambda>l. l \<noteq> newline) trailing_rows \<and>
   (\<exists>self'. read_conllu conllu_constants (terminated_part @ trailing_rows) (init_wrapper ''f'')
        = Inr self' \<and>
      tokens self' = [[''A'']] \<and> lemmas_fld self' = [[''a'']] \<and> pos self' = [[''X'']] \<and>
      relations self' = [[(1, 0)]] \<and> roots self' = [1, 2])"
  using read_conllu_unterminated_sentence [OF trailing_no_blank read_unterminated]
  by (simp add: read_terminated trailing_roots trailing_no_blank read_unterminated)

text \<open>
  \<open>read_conllu\<close> keeps tokens, lemmas, POS tags and relations at one length: all four grow
  by one entry at every blank line and nowhere else. The field \<open>roots\<close> grows at every
  row whose head is 0 instead.
\<close>

lemma read_row_sentence_fields:
  assumes "read_row c line st = Inr st'"
  shows "tokens (snd st') = tokens (snd st) \<and> lemmas_fld (snd st') = lemmas_fld (snd st) \<and>
         pos (snd st') = pos (snd st) \<and> relations (snd st') = relations (snd st)"
  using assms
  by (auto simp: read_row_def Let_def split: sum.splits if_splits)

lemma read_lines_aligned:
  assumes "read_lines c file_lines st = Inr st'"
    and "length (lemmas_fld (snd st)) = length (tokens (snd st))"
    and "length (pos (snd st)) = length (tokens (snd st))"
    and "length (relations (snd st)) = length (tokens (snd st))"
  shows "length (lemmas_fld (snd st')) = length (tokens (snd st')) \<and>
         length (pos (snd st')) = length (tokens (snd st')) \<and>
         length (relations (snd st')) = length (tokens (snd st'))"
  using assms
proof (induction file_lines arbitrary: st)
  case Nil
  then show ?case by simp
next
  case (Cons line rest)
  show ?case
  proof (cases "line = newline")
    case True
    with Cons.prems(1)
    have "read_lines c rest (empty_locals, commit_sentence (fst st) (snd st)) = Inr st'"
      by simp
    from Cons.IH [OF this] Cons.prems(2-4) show ?thesis
      by (simp add: commit_sentence_def)
  next
    case nb: False
    show ?thesis
    proof (cases "startswith_hash line")
      case True
      with nb Cons.prems(1) have "read_lines c rest st = Inr st'" by simp
      from Cons.IH [OF this Cons.prems(2-4)] show ?thesis .
    next
      case False
      with nb Cons.prems(1) obtain st1 where r: "read_row c line st = Inr st1"
        and l: "read_lines c rest st1 = Inr st'"
        by (auto split: sum.splits)
      from read_row_sentence_fields [OF r] Cons.prems(2-4) Cons.IH [OF l]
      show ?thesis by simp
    qed
  qed
qed

lemma read_conllu_sentence_fields_aligned:
  assumes "read_conllu c file_lines (init_wrapper conll_file) = Inr self"
  shows "length (lemmas_fld self) = length (tokens self) \<and>
         length (pos self) = length (tokens self) \<and>
         length (relations self) = length (tokens self)"
proof -
  from assms obtain st' where
    a: "read_lines c file_lines (empty_locals, init_wrapper conll_file) = Inr st'"
    and s: "self = snd st'"
    by (auto simp: read_conllu_def split: sum.splits)
  from read_lines_aligned [OF a] show ?thesis
    by (simp add: s init_wrapper_def)
qed

text \<open>
  Claim C5, at a failing input. The file has a sentence with two roots, a sentence of
  four words that the first loop rejects, and a third sentence. \<open>read_conllu\<close> leaves
  three sentences and the four roots \<open>[1, 2, 1, 2]\<close>; \<open>training_examples\<close> rejects index
  1 and \<open>remove_indices\<close> deletes entry 1 of every field. In tokens, lemmas, pos and
  relations that is the rejected sentence; in \<open>roots\<close> it is the second root of the first
  sentence, which is kept. Afterwards two sentences stand against the three roots
  \<open>[1, 1, 2]\<close>, and entry 1 of \<open>roots\<close> is the root of the rejected sentence, not of the
  sentence at entry 1 of the other fields (whose root is 2).
\<close>

theorem remove_indices_roots_misaligned:
  "read_conllu conllu_constants two_root_file (init_wrapper ''f'') =
     Inr \<lparr>conllu_name = ''f'',
          tokens = [[''A'', ''B''], [''C'', ''D'', ''E'', ''F''], [''G'', ''H'']],
          lemmas_fld = [[''a'', ''b''], [''c'', ''d'', ''e'', ''f''], [''g'', ''h'']],
          pos = [[''X'', ''X''], [''X'', ''X'', ''X'', ''X''], [''X'', ''X'']],
          relations = [[(1, 0), (2, 0)], [(1, 0), (2, 1), (3, 1), (4, 1)], [(1, 2), (2, 0)]],
          roots = [1, 2, 1, 2]\<rparr> \<and>
   remove_indices [1]
     \<lparr>conllu_name = ''f'',
      tokens = [[''A'', ''B''], [''C'', ''D'', ''E'', ''F''], [''G'', ''H'']],
      lemmas_fld = [[''a'', ''b''], [''c'', ''d'', ''e'', ''f''], [''g'', ''h'']],
      pos = [[''X'', ''X''], [''X'', ''X'', ''X'', ''X''], [''X'', ''X'']],
      relations = [[(1, 0), (2, 0)], [(1, 0), (2, 1), (3, 1), (4, 1)], [(1, 2), (2, 0)]],
      roots = [1, 2, 1, 2]\<rparr> =
     \<lparr>conllu_name = ''f'', tokens = [[''A'', ''B''], [''G'', ''H'']],
      lemmas_fld = [[''a'', ''b''], [''g'', ''h'']], pos = [[''X'', ''X''], [''X'', ''X'']],
      relations = [[(1, 0), (2, 0)], [(1, 2), (2, 0)]], roots = [1, 1, 2]\<rparr> \<and>
   new_conll_wrapper conllu_constants char_tokenizer ''f'' two_root_file =
     Inr \<lparr>conllu_name = ''f'', tokens = [[''A'', ''B''], [''G'', ''H'']],
          lemmas_fld = [[''a'', ''b''], [''g'', ''h'']], pos = [[''X'', ''X''], [''X'', ''X'']],
          relations = [[(1, 0), (2, 0)], [(1, 2), (2, 0)]], roots = [1, 1, 2]\<rparr>"
  by code_simp

lemma check_limits_eq:
  "check_limits c tk xs acc =
     (fst acc @ map (\<lambda>p. wrap_wordpieces tk (snd p)) xs,
      snd acc @ map fst (filter (\<lambda>p. over_limit c tk (snd p)) xs))"
proof (induction xs arbitrary: acc)
  case Nil
  then show ?case by simp
next
  case (Cons x xs)
  obtain idx t where x: "x = (idx, t)" by (cases x)
  show ?case
    unfolding x by (simp add: Cons.IH Let_def over_limit_def)
qed

lemma slice_assign_fresh:
  assumes "k \<le> m"
  shows "slice_assign (pre @ replicate m v0) (length pre) (length pre + k) v =
         (pre @ replicate k v) @ replicate (m - k) v0"
  using assms by (simp add: slice_assign_def min_def)

lemma assign_segments_eq:
  assumes "sum_list (word_pieces tk sent) \<le> m"
  shows "assign_segments tk sent (pre @ replicate m v0, w, length pre) =
         (pre @ segment_run w (word_pieces tk sent) @
            replicate (m - sum_list (word_pieces tk sent)) v0,
          w + int (length sent), length pre + sum_list (word_pieces tk sent))"
  using assms
proof (induction sent arbitrary: pre m w)
  case Nil
  then show ?case by (simp add: word_pieces_def)
next
  case (Cons token rest)
  define k where "k = length (tokenize tk token)"
  have wp: "word_pieces tk (token # rest) = k # word_pieces tk rest"
    by (simp add: word_pieces_def k_def)
  from Cons.prems have km: "k \<le> m" and rm: "sum_list (word_pieces tk rest) \<le> m - k"
    by (simp_all add: wp)
  have "assign_segments tk (token # rest) (pre @ replicate m v0, w, length pre) =
        assign_segments tk rest
          ((pre @ replicate k w) @ replicate (m - k) v0, w + 1, length (pre @ replicate k w))"
    by (simp add: k_def [symmetric] slice_assign_fresh [OF km] del: append_assoc)
  also have "\<dots> = ((pre @ replicate k w) @ segment_run (w + 1) (word_pieces tk rest) @
            replicate (m - k - sum_list (word_pieces tk rest)) v0,
          w + 1 + int (length rest), length (pre @ replicate k w) + sum_list (word_pieces tk rest))"
    by (rule Cons.IH [OF rm])
  finally show ?case by (simp add: wp)
qed

lemma assign_segments_counters:
  "snd (assign_segments tk sent (a, w, p)) =
     (w + int (length sent), p + sum_list (word_pieces tk sent))"
  by (induction sent arbitrary: a w p) (simp_all add: word_pieces_def Let_def)

lemma sent_segments_of_eq:
  assumes "1 + sum_list (word_pieces tk sent) \<le> MAX_WORDPIECES c"
  shows "sent_segments_of c tk sent =
         [- 1] @ segment_run 0 (word_pieces tk sent) @
         replicate (MAX_WORDPIECES c - 1 - sum_list (word_pieces tk sent)) (- 1)"
proof -
  from assms obtain m where m: "MAX_WORDPIECES c = Suc m"
    and le: "sum_list (word_pieces tk sent) \<le> m"
    by (cases "MAX_WORDPIECES c") simp_all
  have "replicate (MAX_WORDPIECES c) (- 1 :: int) = [- 1] @ replicate m (- 1)"
    by (simp add: m)
  then show ?thesis
    using assign_segments_eq [OF le, of "[- 1]" "- 1" 0]
    by (simp add: sent_segments_of_def m)
qed


lemma enumerate_fst_ge: "p \<in> set (enumerate k ts) \<Longrightarrow> k \<le> fst p"
  by (auto simp: in_set_enumerate_eq)

lemma filter_enumerate_skip:
  "filter (\<lambda>p. fst p \<noteq> k \<and> R p) (enumerate (Suc k) ts) = filter R (enumerate (Suc k) ts)"
  by (rule filter_cong [OF refl]) (auto dest: enumerate_fst_ge)

lemma align_sentences_eq:
  "align_sentences c tk (zip (map (wrap_wordpieces tk) ts) ts) k acc =
     acc\<lparr>segments := segments acc @ map (sent_segments_of c tk) (kept_of tk (indices_to_rm acc) k ts),
         max_segment := max_segment acc @
            map (\<lambda>t. int (length t)) (kept_of tk (indices_to_rm acc) k ts),
         bert_ids := bert_ids acc @
            map (\<lambda>t. get_bert_ids c tk (wrap_wordpieces tk t)) (kept_of tk (indices_to_rm acc) k ts),
         indices_to_rm := indices_to_rm acc @ mismatched_of tk (indices_to_rm acc) k ts\<rparr>"
proof (induction ts arbitrary: k acc)
  case Nil
  then show ?case by (simp add: kept_of_def mismatched_of_def)
next
  case (Cons t ts)
  obtain seg sid wp where a: "assign_segments tk t (replicate (MAX_WORDPIECES c) (- 1), 0, 1) = (seg, sid, wp)"
    by (cases "assign_segments tk t (replicate (MAX_WORDPIECES c) (- 1), 0, 1)")
  from a assign_segments_counters [of tk t "replicate (MAX_WORDPIECES c) (- 1)" 0 1]
  have sid: "sid = int (length t)" and wp: "wp = 1 + sum_list (word_pieces tk t)"
    by simp_all
  have seg: "seg = sent_segments_of c tk t"
    unfolding sent_segments_of_def a by simp
  from a have a': "assign_segments tk t (replicate (MAX_WORDPIECES c) (- 1), 0, Suc 0) = (seg, sid, wp)"
    by simp
  have fits: "pointer_fits tk t \<longleftrightarrow> wp + 1 = length (wrap_wordpieces tk t)"
    by (simp add: pointer_fits_def wp)
  show ?case
  proof (cases "k \<in> set (indices_to_rm acc)")
    case True
    then show ?thesis
      by (simp add: Cons.IH kept_of_def mismatched_of_def)
  next
    case notin: False
    show ?thesis
    proof (cases "pointer_fits tk t")
      case True
      with notin show ?thesis
        using fits by (simp add: a' Cons.IH kept_of_def mismatched_of_def seg sid)
    next
      case False
      with notin show ?thesis
        using fits
        by (simp add: a' Cons.IH kept_of_def mismatched_of_def filter_enumerate_skip)
    qed
  qed
qed


lemma over_limit_index:
  assumes "p \<in> set (enumerate k ts)"
  shows "fst p \<in> set (map fst (filter (\<lambda>q. over_limit c tk (snd q)) (enumerate k ts))) \<longleftrightarrow>
         over_limit c tk (snd p)"
proof
  assume "fst p \<in> set (map fst (filter (\<lambda>q. over_limit c tk (snd q)) (enumerate k ts)))"
  then obtain q where q: "q \<in> set (enumerate k ts)" "over_limit c tk (snd q)" "fst q = fst p"
    by auto
  from q(1) assms q(3) have "snd q = snd p"
    by (auto simp: in_set_enumerate_eq)
  with q(2) show "over_limit c tk (snd p)" by simp
next
  assume "over_limit c tk (snd p)"
  with assms have "p \<in> set (filter (\<lambda>q. over_limit c tk (snd q)) (enumerate k ts))" by simp
  then show "fst p \<in> set (map fst (filter (\<lambda>q. over_limit c tk (snd q)) (enumerate k ts)))"
    by (metis imageI set_map)
qed

lemma map_snd_enumerate_fun: "map (\<lambda>p. f (snd p)) (enumerate k ts) = map f ts"
  by (induction ts arbitrary: k) simp_all

lemma filter_snd_enumerate:
  "map snd (filter (\<lambda>p. P (snd p)) (enumerate k ts)) = filter P ts"
  by (induction ts arbitrary: k) simp_all

lemma enumerate_ex:
  assumes "i < length ts"
  shows "(\<exists>q \<in> set (enumerate 0 ts). fst q = i \<and> Q (snd q)) \<longleftrightarrow> Q (ts ! i)"
proof
  assume "\<exists>q \<in> set (enumerate 0 ts). fst q = i \<and> Q (snd q)"
  then show "Q (ts ! i)" by (auto simp: in_set_enumerate_eq)
next
  assume "Q (ts ! i)"
  moreover have "(i, ts ! i) \<in> set (enumerate 0 ts)"
    using assms by (simp add: in_set_enumerate_eq)
  ultimately show "\<exists>q \<in> set (enumerate 0 ts). fst q = i \<and> Q (snd q)"
    by (intro bexI [of _ "(i, ts ! i)"]) simp_all
qed

lemma map_nth_take: "i \<le> length xs \<Longrightarrow> map ((!) xs) [0..<i] = take i xs"
  by (auto simp: list_eq_iff_nth_eq)

lemma kept_of_limits:
  "kept_of tk (map fst (filter (\<lambda>q. over_limit c tk (snd q)) (enumerate 0 ts))) 0 ts =
   filter (sentence_kept c tk) ts"
proof -
  have "filter (\<lambda>p. fst p \<notin> set (map fst (filter (\<lambda>q. over_limit c tk (snd q)) (enumerate 0 ts))) \<and>
                    pointer_fits tk (snd p)) (enumerate 0 ts) =
        filter (\<lambda>p. sentence_kept c tk (snd p)) (enumerate 0 ts)"
    by (rule filter_cong [OF refl]) (simp only: over_limit_index sentence_kept_def)
  then have "kept_of tk (map fst (filter (\<lambda>q. over_limit c tk (snd q)) (enumerate 0 ts))) 0 ts =
             map snd (filter (\<lambda>p. sentence_kept c tk (snd p)) (enumerate 0 ts))"
    by (simp add: kept_of_def)
  also have "\<dots> = filter (sentence_kept c tk) ts"
    by (rule filter_snd_enumerate)
  finally show ?thesis .
qed

lemma training_examples_lists:
  "segments (fst (training_examples c tk self)) =
     map (sent_segments_of c tk) (filter (sentence_kept c tk) (tokens self))"
  "max_segment (fst (training_examples c tk self)) =
     map (\<lambda>t. int (length t)) (filter (sentence_kept c tk) (tokens self))"
  "bert_ids (fst (training_examples c tk self)) =
     map (\<lambda>t. get_bert_ids c tk (wrap_wordpieces tk t)) (filter (sentence_kept c tk) (tokens self))"
  by (simp_all add: training_examples_def Let_def check_limits_eq map_snd_enumerate_fun
      align_sentences_eq kept_of_limits)

lemma rejected_iff:
  assumes "i < length (tokens self)"
  shows "i \<in> set (indices_to_rm (fst (training_examples c tk self))) \<longleftrightarrow>
         \<not> sentence_kept c tk (tokens self ! i)"
proof -
  let ?ts = "tokens self"
  let ?rm0 = "map fst (filter (\<lambda>q. over_limit c tk (snd q)) (enumerate 0 ?ts))"
  have p: "(i, ?ts ! i) \<in> set (enumerate 0 ?ts)"
    using assms by (simp add: in_set_enumerate_eq)
  have r: "indices_to_rm (fst (training_examples c tk self)) = ?rm0 @ mismatched_of tk ?rm0 0 ?ts"
    by (simp add: training_examples_def Let_def check_limits_eq map_snd_enumerate_fun
        align_sentences_eq)
  have a: "i \<in> set ?rm0 \<longleftrightarrow> over_limit c tk (?ts ! i)"
    using over_limit_index [OF p, of c tk] by simp
  have b: "i \<in> set (mismatched_of tk ?rm0 0 ?ts) \<longleftrightarrow> i \<notin> set ?rm0 \<and> \<not> pointer_fits tk (?ts ! i)"
  proof -
    have "i \<in> set (mismatched_of tk ?rm0 0 ?ts) \<longleftrightarrow>
          (\<exists>q \<in> set (enumerate 0 ?ts). fst q = i \<and> fst q \<notin> set ?rm0 \<and> \<not> pointer_fits tk (snd q))"
      unfolding mismatched_of_def by (simp only: set_map set_filter) blast
    also have "\<dots> \<longleftrightarrow> i \<notin> set ?rm0 \<and> \<not> pointer_fits tk (?ts ! i)"
      using enumerate_ex [OF assms, of "\<lambda>t. i \<notin> set ?rm0 \<and> \<not> pointer_fits tk t"]
      by (metis (no_types, lifting))
    finally show ?thesis .
  qed
  show ?thesis
    unfolding r using a b by (auto simp: sentence_kept_def)
qed

lemma filter_nth_position:
  assumes "i < length xs" and "P (xs ! i)"
  shows "length (filter P (take i xs)) < length (filter P xs) \<and>
         filter P xs ! length (filter P (take i xs)) = xs ! i"
proof -
  have "xs = take i xs @ xs ! i # drop (Suc i) xs"
    using assms(1) by (simp add: id_take_nth_drop)
  then have "filter P xs = filter P (take i xs) @ xs ! i # filter P (drop (Suc i) xs)"
    using assms(2) by (metis filter.simps(2) filter_append)
  then show ?thesis by (simp add: nth_append)
qed

lemma output_position_eq:
  assumes "i \<le> length (tokens self)"
  shows "output_position (fst (training_examples c tk self)) i =
         length (filter (sentence_kept c tk) (take i (tokens self)))"
proof -
  let ?ex = "fst (training_examples c tk self)"
  have "filter (\<lambda>k. k \<notin> set (indices_to_rm ?ex)) [0..<i] =
        filter (\<lambda>k. sentence_kept c tk (tokens self ! k)) [0..<i]"
    using assms by (intro filter_cong [OF refl]) (simp add: rejected_iff)
  moreover have "map ((!) (tokens self)) (filter (\<lambda>k. sentence_kept c tk (tokens self ! k)) [0..<i]) =
                 filter (sentence_kept c tk) (map ((!) (tokens self)) [0..<i])"
    by (simp add: filter_map comp_def)
  moreover have "map ((!) (tokens self)) [0..<i] = take i (tokens self)"
    using assms by (rule map_nth_take)
  ultimately show ?thesis
    unfolding output_position_def by (metis length_map)
qed

lemma tokens_after:
  "tokens (snd (training_examples c tk self)) = filter (sentence_kept c tk) (tokens self)"
proof -
  let ?ex = "fst (training_examples c tk self)"
  let ?ts = "tokens self"
  have "tokens (snd (training_examples c tk self)) = keep_not_in (indices_to_rm ?ex) ?ts"
    by (simp add: training_examples_def Let_def remove_indices_fields)
  also have "\<dots> = map ((!) ?ts) (filter (\<lambda>i. sentence_kept c tk (?ts ! i)) [0..<length ?ts])"
  proof -
    have "filter (\<lambda>i. i \<notin> set (indices_to_rm ?ex)) [0..<length ?ts] =
          filter (\<lambda>i. sentence_kept c tk (?ts ! i)) [0..<length ?ts]"
      by (rule filter_cong [OF refl]) (simp add: rejected_iff)
    then show ?thesis by (simp add: keep_not_in_map surviving_def)
  qed
  also have "\<dots> = filter (sentence_kept c tk) (map ((!) ?ts) [0..<length ?ts])"
    by (simp add: filter_map comp_def)
  finally show ?thesis by (simp add: map_nth)
qed

lemma length_segment_run: "length (segment_run w ks) = sum_list ks"
  by (induction ks arbitrary: w) simp_all

lemma segment_run_bounds:
  "v \<in> set (segment_run w ks) \<Longrightarrow> w \<le> v \<and> v < w + int (length ks)"
proof (induction ks arbitrary: w)
  case Nil
  then show ?case by simp
next
  case (Cons k ks)
  from Cons.prems have "v = w \<or> v \<in> set (segment_run (w + 1) ks)"
    by (auto split: if_splits)
  then show ?case
  proof
    assume "v = w" then show ?thesis by simp
  next
    assume "v \<in> set (segment_run (w + 1) ks)"
    from Cons.IH [OF this] show ?thesis by simp
  qed
qed

lemma sorted_segment_run: "sorted (segment_run w ks)"
proof (induction ks arbitrary: w)
  case Nil
  then show ?case by simp
next
  case (Cons k ks)
  have "\<forall>x \<in> set (replicate k w). \<forall>y \<in> set (segment_run (w + 1) ks). x \<le> y"
    using segment_run_bounds [of _ "w + 1" ks] by fastforce
  then show ?case
    by (simp add: sorted_append Cons.IH sorted_replicate)
qed

lemma count_list_replicate: "count_list (replicate n x) y = (if x = y then n else 0)"
  by (induction n) auto

lemma count_list_absent: "y \<notin> set xs \<Longrightarrow> count_list xs y = 0"
  by (induction xs) auto

lemma count_segment_run:
  "i < length ks \<Longrightarrow> count_list (segment_run w ks) (w + int i) = ks ! i"
proof (induction ks arbitrary: w i)
  case Nil
  then show ?case by simp
next
  case (Cons k ks)
  show ?case
  proof (cases i)
    case 0
    have "w \<notin> set (segment_run (w + 1) ks)"
      using segment_run_bounds [of w "w + 1" ks] by auto
    then show ?thesis
      using 0 by (simp add: count_list_append count_list_replicate count_list_absent)
  next
    case (Suc i')
    with Cons.prems have "i' < length ks" by simp
    from Cons.IH [OF this, of "w + 1"] show ?thesis
      using Suc by (simp add: count_list_append count_list_replicate add.commute add.left_commute)
  qed
qed

lemma segment_map_shape:
  fixes run :: "int list"
  assumes "\<forall>v \<in> set run. 0 \<le> v" and "seg = [- 1] @ run @ replicate r (- 1)"
  shows "filter (\<lambda>v. v \<noteq> - 1) seg = run"
    and "0 \<le> x \<Longrightarrow> count_list seg x = count_list run x"
    and "p < length seg \<Longrightarrow> seg ! p = - 1 \<longleftrightarrow> p = 0 \<or> length run < p"
proof -
  have f: "filter (\<lambda>v. v \<noteq> - 1) run = run"
    using assms(1) by (intro filter_True) fastforce
  show "filter (\<lambda>v. v \<noteq> - 1) seg = run"
    unfolding assms(2) by (simp add: f)
  show "0 \<le> x \<Longrightarrow> count_list seg x = count_list run x"
    unfolding assms(2) by (simp add: count_list_append count_list_replicate)
  show "p < length seg \<Longrightarrow> seg ! p = - 1 \<longleftrightarrow> p = 0 \<or> length run < p"
  proof -
    assume p: "p < length seg"
    show ?thesis
    proof (cases "p = 0")
      case True
      then show ?thesis by (simp add: assms(2))
    next
      case False
      then obtain q where q: "p = Suc q" by (cases p) auto
      show ?thesis
      proof (cases "q < length run")
        case True
        then have "run ! q \<in> set run" by simp
        with assms(1) have "0 \<le> run ! q" by blast
        with True show ?thesis by (simp add: assms(2) q nth_append)
      next
        case False
        with p show ?thesis by (simp add: assms(2) q nth_append)
      qed
    qed
  qed
qed

lemma wrap_length:
  "length (wrap_wordpieces tk sent) = length (tokenize tk (join_space sent)) + 2"
  by (simp add: wrap_wordpieces_def)

lemma kept_position:
  assumes "i < length (tokens self)" and "sentence_kept c tk (tokens self ! i)"
    and "ex = fst (training_examples c tk self)"
  shows "output_position ex i < length (filter (sentence_kept c tk) (tokens self)) \<and>
         filter (sentence_kept c tk) (tokens self) ! output_position ex i = tokens self ! i"
proof -
  have "output_position ex i = length (filter (sentence_kept c tk) (take i (tokens self)))"
    unfolding assms(3) using assms(1) by (intro output_position_eq) simp
  with filter_nth_position [of i "tokens self" "sentence_kept c tk", OF assms(1,2)]
  show ?thesis by simp
qed

lemma count_list_present: "y \<in> set xs \<Longrightarrow> 0 < count_list xs y"
  by (induction xs) auto

lemma set_segment_run:
  "set (segment_run w ks) = (\<lambda>i. w + int i) ` {i. i < length ks \<and> 0 < ks ! i}"
proof (rule set_eqI)
  fix v
  show "v \<in> set (segment_run w ks) \<longleftrightarrow> v \<in> (\<lambda>i. w + int i) ` {i. i < length ks \<and> 0 < ks ! i}"
  proof
    assume v: "v \<in> set (segment_run w ks)"
    define i where "i = nat (v - w)"
    from segment_run_bounds [OF v] have i: "i < length ks" "v = w + int i"
      unfolding i_def by linarith+
    from count_list_present [OF v] count_segment_run [OF i(1), of w] i(2)
    have "0 < ks ! i" by simp
    with i show "v \<in> (\<lambda>i. w + int i) ` {i. i < length ks \<and> 0 < ks ! i}" by blast
  next
    assume "v \<in> (\<lambda>i. w + int i) ` {i. i < length ks \<and> 0 < ks ! i}"
    then obtain i where i: "i < length ks" "0 < ks ! i" "v = w + int i" by blast
    from count_segment_run [OF i(1), of w] i(2,3)
    have "count_list (segment_run w ks) v \<noteq> 0" by simp
    then show "v \<in> set (segment_run w ks)"
      using count_list_absent by metis
  qed
qed

lemma set_segment_run_words:
  "set (segment_run 0 (word_pieces tk sent)) =
     int ` {w. w < length sent \<and> tokenize tk (sent ! w) \<noteq> []}"
proof -
  have "{i. i < length (word_pieces tk sent) \<and> 0 < word_pieces tk sent ! i} =
        {w. w < length sent \<and> tokenize tk (sent ! w) \<noteq> []}"
    by (auto simp: word_pieces_def)
  then show ?thesis
    by (simp add: set_segment_run)
qed

lemma set_segment_run_all:
  assumes "list_all (\<lambda>token. tokenize tk token \<noteq> []) sent"
  shows "set (segment_run 0 (word_pieces tk sent)) = {0 ..< int (length sent)}"
proof -
  from assms have "{w. w < length sent \<and> tokenize tk (sent ! w) \<noteq> []} = {..<length sent}"
    by (auto simp: list_all_length)
  then have "set (segment_run 0 (word_pieces tk sent)) = int ` {..<length sent}"
    by (simp add: set_segment_run_words)
  also have "\<dots> = {0 ..< int (length sent)}"
    by (simp add: image_int_atLeastLessThan [of 0, simplified] lessThan_atLeast0)
  finally show ?thesis .
qed

text \<open>
  Claim C1, as the code has it. Take sentence \<open>i\<close> of the corpus with fewer words than
  \<open>MAX_TOKENS\<close>, fewer wordpieces (markers included) than \<open>MAX_WORDPIECES\<close>, and a joined
  tokenization as long as the sum of the tokenizations of its words. Then
  \<open>training_examples\<close> has a segment map for it (at the position given by the number of
  surviving sentences before it), of length \<open>MAX_WORDPIECES\<close>: the sentinel \<open>-1\<close>, then
  for each word index \<open>w\<close> in order as many copies of \<open>w\<close> as the tokenizer makes
  wordpieces of word \<open>w\<close> alone, then sentinels to the end. So its entries other than the
  sentinel are non-decreasing, each \<open>w\<close> occurs exactly as often as word \<open>w\<close> has
  wordpieces, and the values that occur are exactly the indices of the words with at
  least one wordpiece: all of \<open>0..word_count-1\<close> when every word has a wordpiece, and not
  the index of a word that has none. The sentinel stands exactly at position 0 and at
  every position after the last wordpiece (the closing marker and the padding).
\<close>

theorem training_examples_segment_map:
  assumes "i < length (tokens self)"
    and "sent = tokens self ! i"
    and "length sent < MAX_TOKENS c"
    and "length (wrap_wordpieces tk sent) < MAX_WORDPIECES c"
    and "length (tokenize tk (join_space sent)) = sum_list (word_pieces tk sent)"
    and "ex = fst (training_examples c tk self)"
    and "seg = segments ex ! output_position ex i"
    and "n = sum_list (word_pieces tk sent)"
  shows "output_position ex i < length (segments ex) \<and>
         length seg = MAX_WORDPIECES c \<and>
         seg = [- 1] @ segment_run 0 (word_pieces tk sent) @
               replicate (MAX_WORDPIECES c - 1 - n) (- 1) \<and>
         filter (\<lambda>v. v \<noteq> - 1) seg = segment_run 0 (word_pieces tk sent) \<and>
         sorted (filter (\<lambda>v. v \<noteq> - 1) seg) \<and>
         set (filter (\<lambda>v. v \<noteq> - 1) seg) \<subseteq> {0 ..< int (length sent)} \<and>
         set (filter (\<lambda>v. v \<noteq> - 1) seg) =
           int ` {w. w < length sent \<and> tokenize tk (sent ! w) \<noteq> []} \<and>
         (list_all (\<lambda>token. tokenize tk token \<noteq> []) sent \<longrightarrow>
            set (filter (\<lambda>v. v \<noteq> - 1) seg) = {0 ..< int (length sent)}) \<and>
         (\<forall>w < length sent. count_list seg (int w) = length (tokenize tk (sent ! w))) \<and>
         (\<forall>p < MAX_WORDPIECES c. seg ! p = - 1 \<longleftrightarrow> p = 0 \<or> n < p)"
proof -
  let ?run = "segment_run 0 (word_pieces tk sent)"
  have kept: "sentence_kept c tk (tokens self ! i)"
    using assms(2-5)
    by (simp add: sentence_kept_def over_limit_def pointer_fits_def wrap_length)
  from kept_position [OF assms(1) kept assms(6)]
  have pos: "output_position ex i < length (filter (sentence_kept c tk) (tokens self))"
    and nth: "filter (sentence_kept c tk) (tokens self) ! output_position ex i = sent"
    by (simp_all add: assms(2))
  have segs: "segments ex = map (sent_segments_of c tk) (filter (sentence_kept c tk) (tokens self))"
    unfolding assms(6) by (rule training_examples_lists)
  have bound: "1 + sum_list (word_pieces tk sent) \<le> MAX_WORDPIECES c"
    using assms(4,5) by (simp add: wrap_length)
  have seg: "seg = [- 1] @ ?run @ replicate (MAX_WORDPIECES c - 1 - n) (- 1)"
    using pos nth sent_segments_of_eq [OF bound]
    by (simp add: assms(7) segs assms(8))
  have nonneg: "\<forall>v \<in> set ?run. 0 \<le> v"
    using segment_run_bounds [of _ 0 "word_pieces tk sent"] by blast
  have len: "length seg = MAX_WORDPIECES c"
    using bound by (simp add: seg length_segment_run assms(8))
  have flt: "filter (\<lambda>v. v \<noteq> - 1) seg = ?run"
    by (rule segment_map_shape(1) [OF nonneg seg])
  have rng: "set ?run \<subseteq> {0 ..< int (length sent)}"
    using segment_run_bounds [of _ 0 "word_pieces tk sent"]
    by (auto simp: word_pieces_def)
  have cnt: "\<forall>w < length sent. count_list seg (int w) = length (tokenize tk (sent ! w))"
  proof (intro allI impI)
    fix w assume w: "w < length sent"
    then have "w < length (word_pieces tk sent)" by (simp add: word_pieces_def)
    from count_segment_run [OF this, of 0] w
    have "count_list ?run (int w) = length (tokenize tk (sent ! w))"
      by (simp add: word_pieces_def)
    moreover have "count_list seg (int w) = count_list ?run (int w)"
      by (rule segment_map_shape(2) [OF nonneg seg]) simp
    ultimately show "count_list seg (int w) = length (tokenize tk (sent ! w))" by simp
  qed
  have sent: "\<forall>p < MAX_WORDPIECES c. seg ! p = - 1 \<longleftrightarrow> p = 0 \<or> n < p"
  proof (intro allI impI)
    fix p assume "p < MAX_WORDPIECES c"
    then have "p < length seg" by (simp add: len)
    from segment_map_shape(3) [OF nonneg seg this]
    show "seg ! p = - 1 \<longleftrightarrow> p = 0 \<or> n < p"
      by (simp add: length_segment_run assms(8))
  qed
  have cover: "set ?run = int ` {w. w < length sent \<and> tokenize tk (sent ! w) \<noteq> []}"
    by (rule set_segment_run_words)
  have full: "list_all (\<lambda>token. tokenize tk token \<noteq> []) sent \<longrightarrow>
              set ?run = {0 ..< int (length sent)}"
    using set_segment_run_all [of tk sent] by blast
  have srt: "sorted ?run"
    by (rule sorted_segment_run)
  have p1: "output_position ex i < length (segments ex)"
    using pos by (simp add: segs)
  show ?thesis
    unfolding flt using p1 len seg rng cover full cnt sent srt by blast
qed

lemma char_examples:
  "training_examples conllu_constants char_tokenizer small_corpus =
     (\<lparr>segments = [[- 1, 0, 0, 1, - 1, - 1, - 1, - 1], [- 1, 0, 0, - 1, - 1, - 1, - 1, - 1]],
       max_segment = [2, 1],
       bert_ids = [[5, 1, 1, 1, 5, 0, 0, 0], [5, 1, 1, 5, 0, 0, 0, 0]],
       indices_to_rm = [1, 3]\<rparr>,
      \<lparr>conllu_name = ''small'', tokens = [[''ab'', ''c''], [''xy'']],
       lemmas_fld = [[''ab'', ''c''], [''xy'']], pos = [[''X'', ''Y''], [''Z'']],
       relations = [[(1, 0), (2, 1)], [(1, 0)]], roots = [1, 1]\<rparr>)"
  by code_simp

theorem training_examples_segment_map_witness:
  "output_position (fst (training_examples conllu_constants char_tokenizer small_corpus)) 0 = 0 \<and>
   segments (fst (training_examples conllu_constants char_tokenizer small_corpus)) ! 0 =
     [- 1, 0, 0, 1, - 1, - 1, - 1, - 1] \<and>
   filter (\<lambda>v. v \<noteq> - 1)
     (segments (fst (training_examples conllu_constants char_tokenizer small_corpus)) ! 0) =
     [0, 0, 1] \<and>
   word_pieces char_tokenizer (tokens small_corpus ! 0) = [2, 1]"
proof -
  let ?ex = "fst (training_examples conllu_constants char_tokenizer small_corpus)"
  have p: "output_position ?ex 0 = 0"
    by (simp add: output_position_def)
  have h1: "0 < length (tokens small_corpus)"
    by (simp add: small_corpus_def)
  have h3: "length (tokens small_corpus ! 0) < MAX_TOKENS conllu_constants"
    by code_simp
  have h4: "length (wrap_wordpieces char_tokenizer (tokens small_corpus ! 0))
              < MAX_WORDPIECES conllu_constants"
    by code_simp
  have h5: "length (tokenize char_tokenizer (join_space (tokens small_corpus ! 0))) =
            sum_list (word_pieces char_tokenizer (tokens small_corpus ! 0))"
    by code_simp
  have wp: "word_pieces char_tokenizer (tokens small_corpus ! 0) = [2, 1]"
    by code_simp
  have mw: "MAX_WORDPIECES conllu_constants = 8"
    by (simp add: conllu_constants_def)
  have run: "segment_run 0 [2, 1] = [0, 0, 1]"
    by code_simp
  from training_examples_segment_map [OF h1 refl h3 h4 h5 refl refl refl]
  show ?thesis
    unfolding p wp mw run by (simp add: numeral_eq_Suc)
qed

lemma gap_examples:
  "training_examples conllu_constants char_tokenizer gap_corpus =
     (\<lparr>segments = [[- 1, 0, 2, - 1, - 1, - 1, - 1, - 1]], max_segment = [3],
       bert_ids = [[5, 1, 1, 5, 0, 0, 0, 0]], indices_to_rm = []\<rparr>,
      gap_corpus)"
  by code_simp

text \<open>
  The entries need not cover \<open>0..word_count-1\<close>. The sentence with the words \<open>a\<close>, the
  empty word and \<open>b\<close> is under both limits and its joined tokenization has the two
  wordpieces its words have together; its segment map holds the ids 0 and 2, and the id
  1 of the empty word, which has no wordpiece, is absent.
\<close>

theorem segment_map_skips_empty_word_counterexample:
  "length (tokens gap_corpus ! 0) < MAX_TOKENS conllu_constants \<and>
   length (wrap_wordpieces char_tokenizer (tokens gap_corpus ! 0))
     < MAX_WORDPIECES conllu_constants \<and>
   length (tokenize char_tokenizer (join_space (tokens gap_corpus ! 0))) =
     sum_list (word_pieces char_tokenizer (tokens gap_corpus ! 0)) \<and>
   segments (fst (training_examples conllu_constants char_tokenizer gap_corpus)) ! 0 =
     [- 1, 0, 2, - 1, - 1, - 1, - 1, - 1] \<and>
   1 \<in> {0 ..< int (length (tokens gap_corpus ! 0))} \<and>
   1 \<notin> set (filter (\<lambda>v. v \<noteq> - 1)
              (segments (fst (training_examples conllu_constants char_tokenizer gap_corpus)) ! 0))"
proof -
  have h3: "length (tokens gap_corpus ! 0) < MAX_TOKENS conllu_constants"
    by code_simp
  have h4: "length (wrap_wordpieces char_tokenizer (tokens gap_corpus ! 0))
              < MAX_WORDPIECES conllu_constants"
    by code_simp
  have h5: "length (tokenize char_tokenizer (join_space (tokens gap_corpus ! 0))) =
            sum_list (word_pieces char_tokenizer (tokens gap_corpus ! 0))"
    by code_simp
  have l: "int (length (tokens gap_corpus ! 0)) = 3"
    by (simp add: gap_corpus_def)
  show ?thesis
    unfolding gap_examples l using h3 h4 h5 by simp
qed

text \<open>
  Claim C4, as the code has it. For a sentence \<open>i\<close> that \<open>training_examples\<close> keeps, the
  entry of \<open>max_segment\<close> at its output position is the number of words of the sentence
  (the value of \<open>segment_id\<close> after the loop over the words, as the docstring says:
  "number of words in each sentence"); every entry of its segment map is at most that
  number minus one.
\<close>

theorem training_examples_max_segment_word_count:
  assumes "i < length (tokens self)"
    and "ex = fst (training_examples c tk self)"
    and "i \<notin> set (indices_to_rm ex)"
  shows "output_position ex i < length (max_segment ex) \<and>
         max_segment ex ! output_position ex i = int (length (tokens self ! i)) \<and>
         list_all (\<lambda>v. v \<le> int (length (tokens self ! i)) - 1)
           (segments ex ! output_position ex i)"
proof -
  let ?sent = "tokens self ! i"
  let ?K = "filter (sentence_kept c tk) (tokens self)"
  have kept: "sentence_kept c tk ?sent"
    using rejected_iff [OF assms(1), of c tk] assms(2,3) by simp
  from kept_position [OF assms(1) kept assms(2)]
  have pos: "output_position ex i < length ?K" and nth: "?K ! output_position ex i = ?sent"
    by simp_all
  have ms: "max_segment ex = map (\<lambda>t. int (length t)) ?K"
    and segs: "segments ex = map (sent_segments_of c tk) ?K"
    unfolding assms(2) by (rule training_examples_lists)+
  from kept have bound: "1 + sum_list (word_pieces tk ?sent) \<le> MAX_WORDPIECES c"
    by (simp add: sentence_kept_def over_limit_def pointer_fits_def)
  have "list_all (\<lambda>v. v \<le> int (length ?sent) - 1) (sent_segments_of c tk ?sent)"
    unfolding sent_segments_of_eq [OF bound] list_all_iff
    using segment_run_bounds [of _ 0 "word_pieces tk ?sent"]
    by (auto simp: word_pieces_def)
  with pos nth show ?thesis
    by (simp add: ms segs)
qed

theorem training_examples_max_segment_word_count_witness:
  "output_position (fst (training_examples conllu_constants char_tokenizer small_corpus)) 2 = 1 \<and>
   max_segment (fst (training_examples conllu_constants char_tokenizer small_corpus)) ! 1 = 1 \<and>
   segments (fst (training_examples conllu_constants char_tokenizer small_corpus)) ! 1 =
     [- 1, 0, 0, - 1, - 1, - 1, - 1, - 1] \<and>
   int (length (tokens small_corpus ! 2)) = 1"
proof -
  let ?ex = "fst (training_examples conllu_constants char_tokenizer small_corpus)"
  have h1: "2 < length (tokens small_corpus)"
    by (simp add: small_corpus_def)
  have h3: "2 \<notin> set (indices_to_rm ?ex)"
    by (simp add: char_examples)
  have p: "output_position ?ex 2 = 1"
    unfolding output_position_def char_examples by code_simp
  from training_examples_max_segment_word_count [OF h1 refl h3]
  show ?thesis
    unfolding p unfolding char_examples by (simp add: small_corpus_def)
qed

text \<open>
  The entry is not the largest segment id of the map, and not the word count minus one:
  the first sentence of the small corpus has two words, its segment map holds the ids 0
  and 1, and its entry of \<open>max_segment\<close> is 2.
\<close>

theorem max_segment_not_maximum_id_counterexample:
  "0 \<notin> set (indices_to_rm (fst (training_examples conllu_constants char_tokenizer small_corpus))) \<and>
   max_segment (fst (training_examples conllu_constants char_tokenizer small_corpus)) ! 0 \<noteq>
     Max (set (segments (fst (training_examples conllu_constants char_tokenizer small_corpus)) ! 0)) \<and>
   max_segment (fst (training_examples conllu_constants char_tokenizer small_corpus)) ! 0 \<noteq>
     int (length (tokens small_corpus ! 0)) - 1"
  unfolding char_examples by (simp add: small_corpus_def)

text \<open>
  Claim C7, as the code has it. For a sentence \<open>i\<close> under both limits, the pointer after
  the loop over its words is one plus the sum of the per-word wordpiece counts, and the
  sentence is kept exactly when the pointer plus one (for the closing marker) is the
  length of the marker-wrapped joined wordpiece sequence, that is when the per-word
  counts sum to the length of the joined tokenization; otherwise its index is rejected.
  The tokens left in the wrapper are those at the indices not rejected.
\<close>

theorem training_examples_keeps_iff_pointer_fits:
  assumes "i < length (tokens self)"
    and "sent = tokens self ! i"
    and "length sent < MAX_TOKENS c"
    and "length (wrap_wordpieces tk sent) < MAX_WORDPIECES c"
    and "assign_segments tk sent (replicate (MAX_WORDPIECES c) (- 1), 0, 1) =
           (sent_segments, segment_id, wordpiece_pointer)"
    and "ex = fst (training_examples c tk self)"
  shows "wordpiece_pointer = 1 + sum_list (word_pieces tk sent) \<and>
         (i \<notin> set (indices_to_rm ex) \<longleftrightarrow>
            wordpiece_pointer + 1 = length (wrap_wordpieces tk sent)) \<and>
         (i \<notin> set (indices_to_rm ex) \<longleftrightarrow>
            sum_list (word_pieces tk sent) = length (tokenize tk (join_space sent))) \<and>
         tokens (snd (training_examples c tk self)) =
            map ((!) (tokens self)) (surviving (indices_to_rm ex) (length (tokens self)))"
proof -
  from assms(5) assign_segments_counters [of tk sent "replicate (MAX_WORDPIECES c) (- 1)" 0 1]
  have wp: "wordpiece_pointer = 1 + sum_list (word_pieces tk sent)"
    by simp
  have lim: "\<not> over_limit c tk sent"
    using assms(3,4) by (simp add: over_limit_def)
  have rej: "i \<notin> set (indices_to_rm ex) \<longleftrightarrow> pointer_fits tk sent"
    using rejected_iff [OF assms(1), of c tk] lim
    by (simp add: assms(2,6) sentence_kept_def)
  have tk: "tokens (snd (training_examples c tk self)) =
            map ((!) (tokens self)) (surviving (indices_to_rm ex) (length (tokens self)))"
    by (simp add: training_examples_def Let_def remove_indices_fields keep_not_in_map assms(6))
  show ?thesis
    using wp rej tk by (auto simp: pointer_fits_def wrap_length)
qed

lemma merging_examples:
  "training_examples conllu_constants merging_tokenizer small_corpus =
     (\<lparr>segments = [[- 1, 0, 0, - 1, - 1, - 1, - 1, - 1]],
       max_segment = [1],
       bert_ids = [[5, 1, 1, 5, 0, 0, 0, 0]],
       indices_to_rm = [1, 0, 3]\<rparr>,
      \<lparr>conllu_name = ''small'', tokens = [[''xy'']],
       lemmas_fld = [[''xy'']], pos = [[''Z'']],
       relations = [[(1, 0)]], roots = [1]\<rparr>)"
  by code_simp

theorem training_examples_keeps_iff_pointer_fits_witness:
  "0 \<in> set (indices_to_rm (fst (training_examples conllu_constants merging_tokenizer small_corpus))) \<and>
   snd (snd (assign_segments merging_tokenizer (tokens small_corpus ! 0)
               (replicate (MAX_WORDPIECES conllu_constants) (- 1), 0, 1))) = 4 \<and>
   length (wrap_wordpieces merging_tokenizer (tokens small_corpus ! 0)) = 3 \<and>
   tokens (snd (training_examples conllu_constants merging_tokenizer small_corpus)) = [[''xy'']]"
proof -
  let ?sent = "tokens small_corpus ! 0"
  have h1: "0 < length (tokens small_corpus)"
    by (simp add: small_corpus_def)
  have h3: "length ?sent < MAX_TOKENS conllu_constants"
    by code_simp
  have h4: "length (wrap_wordpieces merging_tokenizer ?sent) < MAX_WORDPIECES conllu_constants"
    by code_simp
  have h5: "assign_segments merging_tokenizer ?sent
              (replicate (MAX_WORDPIECES conllu_constants) (- 1), 0, 1) =
            ([- 1, 0, 0, 1, - 1, - 1, - 1, - 1], 2, 4)"
    by code_simp
  have l: "length (wrap_wordpieces merging_tokenizer ?sent) = 3"
    by code_simp
  from training_examples_keeps_iff_pointer_fits [OF h1 refl h3 h4 h5 refl]
  show ?thesis
    unfolding l h5 merging_examples by simp
qed

text \<open>
  The pointer itself never equals the length of the wrapped sequence for a kept sentence:
  the first sentence of the small corpus is under both limits and is kept, its pointer is
  4 and its wrapped sequence has 5 wordpieces.
\<close>

theorem pointer_equals_length_counterexample:
  "length (tokens small_corpus ! 0) < MAX_TOKENS conllu_constants \<and>
   length (wrap_wordpieces char_tokenizer (tokens small_corpus ! 0))
     < MAX_WORDPIECES conllu_constants \<and>
   \<not> (0 \<notin> set (indices_to_rm
                (fst (training_examples conllu_constants char_tokenizer small_corpus))) \<longleftrightarrow>
      snd (snd (assign_segments char_tokenizer (tokens small_corpus ! 0)
                 (replicate (MAX_WORDPIECES conllu_constants) (- 1), 0, 1))) =
      length (wrap_wordpieces char_tokenizer (tokens small_corpus ! 0)))"
proof -
  have a: "assign_segments char_tokenizer (tokens small_corpus ! 0)
              (replicate (MAX_WORDPIECES conllu_constants) (- 1), 0, 1) =
            ([- 1, 0, 0, 1, - 1, - 1, - 1, - 1], 2, 4)"
    by code_simp
  have l: "length (wrap_wordpieces char_tokenizer (tokens small_corpus ! 0)) = 5"
    by code_simp
  show ?thesis
    unfolding a l unfolding char_examples by (simp add: small_corpus_def conllu_constants_def)
qed

section \<open>Properties of the distance probe\<close>

lemma squared_entry_commute:
  "sum_list (map (\<lambda>d. d\<^sup>2) (map2 (-) x y)) = sum_list (map (\<lambda>d. d\<^sup>2) (map2 (-) y (x :: real list)))"
proof -
  have "map (\<lambda>d. d\<^sup>2) (map2 (-) x y) = map (\<lambda>d. d\<^sup>2) (map2 (-) y x)"
  proof (induction x arbitrary: y)
    case Nil
    then show ?case by simp
  next
    case (Cons a x)
    then show ?case by (cases y) (simp_all add: power2_commute)
  qed
  then show ?thesis by simp
qed

lemma squared_entry_self: "sum_list (map (\<lambda>d. d\<^sup>2) (map2 (-) x (x :: real list))) = 0"
  by (induction x) simp_all

lemma squared_diffs_nth:
  assumes "i < length e" and "j < length e"
  shows "squared_diffs e ! i ! j = sum_list (map (\<lambda>d. d\<^sup>2) (map2 (-) (e ! j) (e ! i)))"
  using assms by (simp add: squared_diffs_def)

lemma squared_diffs_length:
  "length (squared_diffs e) = length e"
  "i < length e \<Longrightarrow> length (squared_diffs e ! i) = length e"
  by (simp_all add: squared_diffs_def)

lemma squared_diffs_symmetric:
  assumes "i < length e" and "j < length e"
  shows "squared_diffs e ! i ! j = squared_diffs e ! j ! i" and "squared_diffs e ! i ! i = 0"
proof -
  have "squared_diffs e ! i ! j = sum_list (map (\<lambda>d. d\<^sup>2) (map2 (-) (e ! j) (e ! i)))"
    by (rule squared_diffs_nth [OF assms])
  also have "\<dots> = sum_list (map (\<lambda>d. d\<^sup>2) (map2 (-) (e ! i) (e ! j)))"
    by (rule squared_entry_commute)
  also have "\<dots> = squared_diffs e ! j ! i"
    by (rule squared_diffs_nth [OF assms(2,1), symmetric])
  finally show "squared_diffs e ! i ! j = squared_diffs e ! j ! i" .
  show "squared_diffs e ! i ! i = 0"
    by (simp only: squared_diffs_nth [OF assms(1) assms(1)] squared_entry_self)
qed

lemma forward_squared_diffs:
  assumes "forward self batch = Inr distance"
  shows "\<exists>projected. distance = map squared_diffs projected"
  using assms
  by (auto simp: forward_def Let_def split: option.splits if_splits sum.splits list.splits)

text \<open>
  Claim C8. Whenever \<open>forward\<close> returns a distance tensor, the matrix of every sentence
  \<open>b\<close> is square, symmetric and zero on its diagonal: for all positions \<open>i\<close>, \<open>j\<close> of the
  sentence, \<open>distance[b][i][j] = distance[b][j][i]\<close> and \<open>distance[b][i][i] = 0\<close>. This
  holds for all embeddings, so also when all word embeddings of a sentence are equal.
\<close>

theorem forward_symmetric_zero_diagonal:
  assumes "forward self batch = Inr distance"
    and "b < length distance"
    and "i < length (distance ! b)" and "j < length (distance ! b)"
  shows "distance ! b ! i ! j = distance ! b ! j ! i \<and>
         distance ! b ! i ! i = 0 \<and>
         length (distance ! b ! i) = length (distance ! b)"
proof -
  from forward_squared_diffs [OF assms(1)] obtain projected
    where d: "distance = map squared_diffs projected" by blast
  with assms(2) have b: "b < length projected" and e: "distance ! b = squared_diffs (projected ! b)"
    by simp_all
  from assms(3,4) have i: "i < length (projected ! b)" and j: "j < length (projected ! b)"
    by (simp_all add: e squared_diffs_length)
  show ?thesis
    unfolding e using squared_diffs_symmetric [OF i j] squared_diffs_length(2) [OF i]
    by (simp add: squared_diffs_length(1))
qed

lemma toy_forward: "forward toy_probe toy_batch = Inr [[[0, 36], [36, 0]]]"
  by code_simp

theorem forward_symmetric_zero_diagonal_witness:
  "forward toy_probe toy_batch = Inr [[[0, 36], [36, 0]]] \<and>
   [[[0, 36], [36, 0 :: real]]] ! 0 ! 0 ! 1 = [[[0, 36], [36, 0]]] ! 0 ! 1 ! 0 \<and>
   [[[0, 36], [36, 0 :: real]]] ! 0 ! 0 ! 0 = 0"
  using forward_symmetric_zero_diagonal [OF toy_forward, of 0 0 1]
  by (simp add: toy_forward)

lemma sum_list_nth: "sum_list xs = (\<Sum>i<length xs. xs ! i)" for xs :: "real list"
  by (simp add: sum_list_sum_nth atLeast0LessThan)

lemma abs_diff_sum_eq:
  assumes "map length p = map length g"
  shows "abs_diff_sum p g = (\<Sum>i<length p. \<Sum>j<length (p ! i). \<bar>p ! i ! j - g ! i ! j\<bar>)"
proof -
  from assms have len: "length p = length g"
    by (metis length_map)
  have rows: "length (p ! i) = length (g ! i)" if "i < length p" for i
    using that assms len by (metis nth_map)
  have "abs_diff_sum p g =
        (\<Sum>i<length p. sum_list (map2 (\<lambda>x y. \<bar>x - y\<bar>) (p ! i) (g ! i)))"
    by (simp add: abs_diff_sum_def sum_list_nth len)
  also have "\<dots> = (\<Sum>i<length p. \<Sum>j<length (p ! i). \<bar>p ! i ! j - g ! i ! j\<bar>)"
  proof (rule sum.cong [OF refl])
    fix i assume "i \<in> {..<length p}"
    then have "length (p ! i) = length (g ! i)" using rows by simp
    then show "sum_list (map2 (\<lambda>x y. \<bar>x - y\<bar>) (p ! i) (g ! i)) =
               (\<Sum>j<length (p ! i). \<bar>p ! i ! j - g ! i ! j\<bar>)"
      by (simp add: sum_list_nth)
  qed
  finally show ?thesis .
qed

text \<open>
  Claim C2. For a non-empty batch whose predicted and gold tensors have the same shape,
  with one non-zero word count per sentence, \<open>_loss\<close> returns the mean over the sentences
  \<open>b\<close> of the sum over all positions \<open>(i, j)\<close> of \<open>|predicted[b][i][j] - gold[b][i][j]|\<close>
  divided by the square of the word count \<open>token_lens[b]\<close> of the sentence (and not by the
  padded length, the size of the matrices). \<open>train_on_batch\<close> and \<open>evaluate_on_batch\<close>
  both call this function.
\<close>

theorem loss_is_mean_of_normalised_sums:
  assumes "map (map length) predicted = map (map length) gold"
    and "length token_lens = length predicted"
    and "predicted \<noteq> []"
    and "list_all (\<lambda>n. n \<noteq> 0) token_lens"
  shows "loss predicted gold token_lens =
         Inr (Some ((\<Sum>b<length predicted.
                      (\<Sum>i<length (predicted ! b). \<Sum>j<length (predicted ! b ! i).
                          \<bar>predicted ! b ! i ! j - gold ! b ! i ! j\<bar>)
                      / (real_of_int (token_lens ! b))\<^sup>2)
                    / real (length predicted)))"
proof -
  let ?B = "length predicted"
  from assms(1) have len: "length gold = ?B"
    by (metis length_map)
  have shape: "map length (predicted ! b) = map length (gold ! b)" if "b < ?B" for b
    using that assms(1) len by (metis nth_map)
  define sl where "sl = map2 (\<lambda>s n. fdiv s ((real_of_int n)\<^sup>2))
               (map2 abs_diff_sum predicted gold) token_lens"
  have l: "length sl = ?B"
    by (simp add: sl_def len assms(2))
  have nth: "sl ! b = Some ((\<Sum>i<length (predicted ! b). \<Sum>j<length (predicted ! b ! i).
                          \<bar>predicted ! b ! i ! j - gold ! b ! i ! j\<bar>)
                      / (real_of_int (token_lens ! b))\<^sup>2)" if "b < ?B" for b
  proof -
    from that assms(2,4) have "token_lens ! b \<noteq> 0"
      by (simp add: list_all_length)
    then show ?thesis
      using that by (simp add: sl_def len assms(2) fdiv_def abs_diff_sum_eq [OF shape [OF that]])
  qed
  have none: "\<not> list_ex (\<lambda>x. x = None) sl"
    unfolding list_ex_length using nth l by auto
  have "sum_list (map the sl) = (\<Sum>b<?B. the (sl ! b))"
    using l by (simp add: sum_list_nth)
  also have "\<dots> = (\<Sum>b<?B. (\<Sum>i<length (predicted ! b). \<Sum>j<length (predicted ! b ! i).
                          \<bar>predicted ! b ! i ! j - gold ! b ! i ! j\<bar>)
                      / (real_of_int (token_lens ! b))\<^sup>2)"
    by (rule sum.cong [OF refl]) (simp add: nth)
  finally have s: "sum_list (map the sl) = (\<Sum>b<?B. (\<Sum>i<length (predicted ! b). \<Sum>j<length (predicted ! b ! i).
                          \<bar>predicted ! b ! i ! j - gold ! b ! i ! j\<bar>)
                      / (real_of_int (token_lens ! b))\<^sup>2)" .
  have ne: "sl \<noteq> []"
    using l assms(3) by (metis length_0_conv)
  have "reduce_mean sl = Some (sum_list (map the sl) / real (length sl))"
    unfolding reduce_mean_def using none ne by simp
  then show ?thesis
    unfolding loss_def Let_def sl_def [symmetric] using assms(1,2) by (simp add: s l)
qed

text \<open>
  Two sentences padded to three positions, with two words and one word: the sums 110
  and 2 are divided by the squares of 2 and 1, not of 3.
\<close>

theorem loss_is_mean_of_normalised_sums_witness:
  "loss [[[0, 36, 4], [36, 0, 16], [4, 16, 0]], [[0, 1, 0], [1, 0, 0], [0, 0, 0]]]
        [[[0, 1, 0], [1, 0, 0], [0, 0, 0]], [[0, 2, 0], [2, 0, 0], [0, 0, 0]]]
        [2, 1] = Inr (Some ((110 / 2\<^sup>2 + 2 / 1\<^sup>2) / 2))"
  using loss_is_mean_of_normalised_sums
    [of "[[[0, 36, 4], [36, 0, 16], [4, 16, 0]], [[0, 1, 0], [1, 0, 0], [0, 0, 0]]]"
        "[[[0, 1, 0], [1, 0, 0], [0, 0, 0]], [[0, 2, 0], [2, 0, 0], [0, 0, 0]]]" "[2, 1]"]
  by (simp add: lessThan_Suc numeral_2_eq_2 numeral_3_eq_3)

lemma toy_loss: "loss [[[0, 36], [36, 0]]] [[[0, 1], [1, 0]]] [2] = Inr (Some (35 / 2))"
  by code_simp

text \<open>
  Claim C3. When \<open>train_on_batch\<close> returns for a batch of language \<open>L\<close>, the map of every
  other language is what it was, and no map is added or removed. The step takes the
  gradients with respect to exactly two tensors, the projection \<open>Distance_Probe\<close> and the
  map \<open>Language_Maps[L]\<close>: these two gradients determine the new projection and the new
  map of \<open>L\<close>.
\<close>

theorem train_on_batch_frame:
  assumes "train_on_batch tape_gradient opt (self, opt_state) batch = Inr (loss_value, self', opt_state')"
  shows "(\<forall>lang. lang \<noteq> language batch \<longrightarrow> Language_Maps self' lang = Language_Maps self lang) \<and>
         dom (Language_Maps self') = dom (Language_Maps self) \<and>
         (\<exists>language_map g_probe g_map.
            Language_Maps self (language batch) = Some language_map \<and>
            tape_gradient (batch_loss_of self batch) (Distance_Probe self) language_map
              = (g_probe, g_map) \<and>
            (g_probe \<noteq> None \<or> g_map \<noteq> None) \<and>
            Distance_Probe self' =
              (case g_probe of
                 None \<Rightarrow> Distance_Probe self
               | Some g \<Rightarrow> update_variable opt opt_state ''distance_probe'' g (Distance_Probe self)) \<and>
            Language_Maps self' (language batch) =
              Some (case g_map of
                      None \<Rightarrow> language_map
                    | Some g \<Rightarrow> update_variable opt opt_state (language batch @ ''_map'') g
                                 language_map))"
proof -
  from assms obtain language_map where lm: "Language_Maps self (language batch) = Some language_map"
    by (auto simp: train_on_batch_def Let_def split: sum.splits option.splits if_splits)
  obtain g_probe g_map where g:
    "tape_gradient (batch_loss_of self batch) (Distance_Probe self) language_map = (g_probe, g_map)"
    by (cases "tape_gradient (batch_loss_of self batch) (Distance_Probe self) language_map")
  from assms lm g have some: "g_probe \<noteq> None \<or> g_map \<noteq> None"
    by (auto simp: train_on_batch_def Let_def split: sum.splits option.splits if_splits)
  from assms lm g have self': "self' =
      self\<lparr>Distance_Probe :=
              (case g_probe of
                 None \<Rightarrow> Distance_Probe self
               | Some g \<Rightarrow> update_variable opt opt_state ''distance_probe'' g (Distance_Probe self)),
            Language_Maps := (Language_Maps self)(language batch \<mapsto>
              (case g_map of
                 None \<Rightarrow> language_map
               | Some g \<Rightarrow> update_variable opt opt_state (language batch @ ''_map'') g
                            language_map))\<rparr>"
    by (auto simp: train_on_batch_def Let_def split: sum.splits if_splits)
  have dom: "dom (Language_Maps self') = dom (Language_Maps self)"
    using lm by (auto simp: self')
  show ?thesis
    using lm g some dom by (auto simp: self')
qed

lemma toy_train:
  "case train_on_batch ones_gradient step_optimizer (toy_probe, 0) toy_batch of
     Inl e \<Rightarrow> False
   | Inr (l, s, n) \<Rightarrow>
       l = Some (35 / 2) \<and> Distance_Probe s = [[19 / 10]] \<and>
       Language_Maps s ''en'' = Some [[9 / 10]] \<and> Language_Maps s ''de'' = Some [[1]] \<and> n = 1"
  by code_simp

theorem train_on_batch_frame_witness:
  "\<exists>l s n. train_on_batch ones_gradient step_optimizer (toy_probe, 0) toy_batch = Inr (l, s, n) \<and>
     language toy_batch = ''en'' \<and>
     Language_Maps toy_probe ''de'' = Some [[1]] \<and> Language_Maps s ''de'' = Some [[1]] \<and>
     Language_Maps toy_probe ''en'' = Some [[1]] \<and> Language_Maps s ''en'' = Some [[9 / 10]] \<and>
     Distance_Probe toy_probe = [[2]] \<and> Distance_Probe s = [[19 / 10]]"
proof -
  from toy_train obtain l s n
    where t: "train_on_batch ones_gradient step_optimizer (toy_probe, 0) toy_batch = Inr (l, s, n)"
      and v: "Distance_Probe s = [[19 / 10]]" "Language_Maps s ''en'' = Some [[9 / 10]]"
    by (auto split: sum.splits)
  have b: "language toy_batch = ''en''"
    by (simp add: toy_batch_def)
  have p: "Language_Maps toy_probe ''de'' = Some [[1]]" "Language_Maps toy_probe ''en'' = Some [[1]]"
    "Distance_Probe toy_probe = [[2]]"
    by (simp_all add: toy_probe_def new_probe_def eye_def)
  from train_on_batch_frame [OF t] have "Language_Maps s ''de'' = Language_Maps toy_probe ''de''"
    by (simp add: b)
  with t v b p show ?thesis by simp
qed

text \<open>
  Claim C6, at a failing input. For the two language names \<open>en\<close> and \<open>de\<close> and one
  evaluation batch per language, \<open>evaluate\<close> does not return the mean of per-language mean
  losses: the loop header unpacks the name \<open>en\<close> into the index \<open>e\<close> and the language
  \<open>n\<close>, and the first accumulation \<open>all_losses[lang_idx] += batch_loss\<close> raises
  \<open>IndexError\<close>.
\<close>

theorem evaluate_raises_on_language_names:
  "evaluate toy_probe (\<lambda>batch_size lang. [toy_batch]) 8 = Inl IndexError"
  by code_simp

text \<open>
  Claim C10, at a failing input. For a language whose batch iterator yields no batch the
  divisor \<open>batch_idx + 1\<close> is one, but the slot of the language is never read: the
  division line indexes \<open>all_losses\<close> with the string \<open>lang_idx\<close> and raises \<open>IndexError\<close>,
  so no mean is returned.
\<close>

theorem evaluate_raises_without_batches:
  "evaluate (new_probe 1 1 [''en''] toy_bert [[2]]) (\<lambda>batch_size lang. []) 8 = Inl IndexError"
  by code_simp

text \<open>
  The same holds for every non-empty list of language names: \<open>evaluate\<close> raises, whatever
  the batches are.
\<close>

lemma unpack_pair_str:
  "unpack_pair entry = Inr (k, lang) \<Longrightarrow> \<exists>s. k = IdxStr s"
  by (auto simp: unpack_pair_def split: list.splits)

lemma evaluate_batch_loop_str:
  "evaluate_batch_loop self (IdxStr s) bs st = Inr st' \<Longrightarrow> bs = [] \<and> st' = st"
  by (cases bs) (auto simp: np_getitem_def array_position_def split: sum.splits)

lemma evaluate_languages_names:
  "evaluate_languages self evaluate_batches batch_size (entry # rest) all_losses \<noteq> Inr r"
proof
  assume a: "evaluate_languages self evaluate_batches batch_size (entry # rest) all_losses = Inr r"
  then obtain k lang where u: "unpack_pair entry = Inr (k, lang)"
    by (auto split: sum.splits)
  from unpack_pair_str [OF u] obtain s where k: "k = IdxStr s" by blast
  from a u k show False
    by (auto simp: np_getitem_def array_position_def split: sum.splits dest: evaluate_batch_loop_str)
qed

lemma evaluate_never_returns:
  assumes "languages self \<noteq> []"
  shows "\<exists>e. evaluate self evaluate_batches batch_size = Inl e"
proof -
  from assms obtain entry rest where l: "languages self = entry # rest"
    by (cases "languages self") auto
  show ?thesis
    using evaluate_languages_names [of self evaluate_batches batch_size entry rest]
    unfolding evaluate_def l
    by (cases "evaluate_languages self evaluate_batches batch_size (entry # rest)
                  (replicate (length (entry # rest)) (Some 0))") auto
qed

end
